theory Spec2Isabelle
  imports Main "HOL-Library.Sublist" "HOL-Library.AList"
begin

section \<open>Plugins and the options handed to the bundler\<close>

text \<open>
  An esbuild plugin is opaque to \<^verbatim>\<open>src/esbuild.ts\<close>: the file only builds lists of
  plugins and passes them on. A user plugin is identified by its name; the value
  returned by \<^verbatim>\<open>nodeExternalsPlugin({ packagePath })\<close> is identified by the manifest
  paths it was configured with.
\<close>

datatype plugin = UserPlugin string | NodeExternals "string list"

definition nodeExternalsPlugin :: "string list \<Rightarrow> plugin" where
  "nodeExternalsPlugin packagePath = NodeExternals packagePath"

text \<open>
  \<^verbatim>\<open>Partial<ReadUserPluginsReturnType>\<close>: both fields are optional. \<open>None\<close> is a
  field that is absent (or \<^verbatim>\<open>undefined\<close>); \<open>Some ps\<close> is a field holding the array
  \<open>ps\<close>. An array is truthy in JavaScript, the empty one included.
\<close>

record user_plugins =
  cjs :: "plugin list option"
  esm :: "plugin list option"

datatype format = FormatESM | FormatCJS

text \<open>The object literal passed to \<^verbatim>\<open>esbuild.build\<close>; \<open>plugins\<close> is optional there.\<close>

record build_options =
  sourcemap :: bool
  target :: "string list"
  bundle_opt :: bool
  entryPoints :: "string list"
  format :: format
  outdir :: string
  plugins :: "plugin list option"

section \<open>Strings and paths\<close>

text \<open>\<^verbatim>\<open>s.includes(sub)\<close>: \<open>sub\<close> occurs in \<open>s\<close> as a contiguous run.\<close>

fun str_includes :: "string \<Rightarrow> string \<Rightarrow> bool" where
  "str_includes [] sub = (sub = [])"
| "str_includes (c # cs) sub = (prefix sub (c # cs) \<or> str_includes cs sub)"

text \<open>
  \<^verbatim>\<open>s.replace(pat, rep)\<close> with a string pattern: only the leftmost occurrence is
  replaced. The source only ever passes \<^verbatim>\<open>''\<close> as the replacement.
\<close>

fun replace :: "string \<Rightarrow> string \<Rightarrow> string \<Rightarrow> string" where
  "replace [] pat rep = (if pat = [] then rep else [])"
| "replace (c # cs) pat rep =
     (if prefix pat (c # cs) then rep @ drop (length pat) (c # cs)
      else c # replace cs pat rep)"

text \<open>\<^verbatim>\<open>p.replace(/\.js$/, '.cjs.js')\<close>\<close>

definition replace_js_suffix :: "string \<Rightarrow> string" where
  "replace_js_suffix p =
     (if suffix ''.js'' p then take (length p - 3) p @ ''.cjs.js'' else p)"

definition is_sep :: "char \<Rightarrow> bool" where
  "is_sep c = (c = CHR ''/'' \<or> c = CHR 0x5C)"

text \<open>\<^verbatim>\<open>s.replace(/(\\|\/)$/, '')\<close>: one trailing slash or backslash is dropped.\<close>

definition strip_trailing_sep :: "string \<Rightarrow> string" where
  "strip_trailing_sep s = (if s \<noteq> [] \<and> is_sep (last s) then butlast s else s)"

text \<open>\<^verbatim>\<open>s.replace(/^(\/|\\)/, '')\<close>: one leading slash or backslash is dropped.\<close>

definition strip_leading_sep :: "string \<Rightarrow> string" where
  "strip_leading_sep s = (case s of [] \<Rightarrow> [] | c # cs \<Rightarrow> if is_sep c then cs else c # cs)"

text \<open>
  Node's POSIX \<^verbatim>\<open>path\<close> module. \<open>split_path\<close> cuts a path at every slash;
  \<open>normalizeString\<close> walks the segments, skipping empty ones and \<^verbatim>\<open>.\<close> and
  resolving \<^verbatim>\<open>..\<close> against the segments kept so far.
\<close>

fun split_path :: "string \<Rightarrow> string list" where
  "split_path [] = [[]]"
| "split_path (c # cs) =
     (if c = CHR ''/'' then [] # split_path cs
      else (case split_path cs of [] \<Rightarrow> [[c]] | s # ss \<Rightarrow> (c # s) # ss))"

fun join_segments :: "string list \<Rightarrow> string" where
  "join_segments [] = []"
| "join_segments [s] = s"
| "join_segments (s # t # ss) = s @ ''/'' @ join_segments (t # ss)"

fun normalizeString :: "bool \<Rightarrow> string list \<Rightarrow> string list \<Rightarrow> string list" where
  "normalizeString allowAboveRoot res [] = res"
| "normalizeString allowAboveRoot res (s # ss) =
     (if s = [] \<or> s = ''.'' then normalizeString allowAboveRoot res ss
      else if s = ''..'' then
        (if res \<noteq> [] \<and> last res \<noteq> ''..''
           then normalizeString allowAboveRoot (butlast res) ss
         else if allowAboveRoot
           then normalizeString allowAboveRoot (res @ [''..'']) ss
         else normalizeString allowAboveRoot res ss)
      else normalizeString allowAboveRoot (res @ [s]) ss)"

definition isAbsolute :: "string \<Rightarrow> bool" where
  "isAbsolute p = (p \<noteq> [] \<and> hd p = CHR ''/'')"

definition path_normalize :: "string \<Rightarrow> string" where
  "path_normalize p =
     (if p = [] then ''.''
      else
        let trailingSeparator = (last p = CHR ''/'');
            body = join_segments (normalizeString (\<not> isAbsolute p) [] (split_path p))
        in if body = [] then
             (if isAbsolute p then ''/'' else if trailingSeparator then ''./'' else ''.'')
           else (if isAbsolute p then ''/'' else []) @ body
                @ (if trailingSeparator then ''/'' else []))"

text \<open>\<^verbatim>\<open>path.join(...)\<close>: the non-empty arguments, joined by slashes, normalised.\<close>

definition path_join :: "string list \<Rightarrow> string" where
  "path_join args =
     (case filter (\<lambda>a. a \<noteq> []) args of
        [] \<Rightarrow> ''.''
      | a # as \<Rightarrow> path_normalize (join_segments (a # as)))"

text \<open>\<^verbatim>\<open>path.basename(p)\<close>: trailing slashes are ignored, then the last segment.\<close>

definition basename :: "string \<Rightarrow> string" where
  "basename p =
     rev (takeWhile (\<lambda>c. c \<noteq> CHR ''/'') (dropWhile (\<lambda>c. c = CHR ''/'') (rev p)))"

text \<open>
  \<^verbatim>\<open>path.resolve(wd, p)\<close> for the working directory \<open>wd\<close>, which is how a path
  given to the file system, to the shell or to the glob library is read: an absolute
  \<open>p\<close> stands for itself, a relative one is taken below the working directory; the
  result is absolute, normalised and has no trailing slash.
\<close>

definition resolve :: "string \<Rightarrow> string \<Rightarrow> string" where
  "resolve wd p =
     ''/'' @ join_segments
       (normalizeString False [] (split_path (if isAbsolute p then p else wd @ ''/'' @ p)))"

section \<open>Loading the user's plugins\<close>

text \<open>
  What \<^verbatim>\<open>readUserPlugins\<close> sees of its surroundings: the working directory, what
  is found at a path (\<^verbatim>\<open>fs.stat\<close> rejects when nothing is there or the path cannot be
  read, and otherwise answers \<^verbatim>\<open>isFile()\<close>), and what the dynamic
  \<^verbatim>\<open>import(path)\<close> of a file gives: a rejection (syntax error, read error, an
  exception thrown by the module), or the module's default export, \<open>None\<close> when there
  is none (\<^verbatim>\<open>undefined\<close>).
\<close>

datatype entry =
    Missing
  | Unreadable
  | RegularFile
  | Directory  \<comment> \<open>a directory, or anything else that is not a regular file\<close>

datatype import_result = ImportFails | Module "user_plugins option"

record env =
  cwd :: string
  entry_at :: "string \<Rightarrow> entry"
  import_at :: "string \<Rightarrow> import_result"

datatype error =
    ENOENT string
  | EACCES string
  | ImportError string
  | EISDIR string
  | BuildFailure string
  | DestExists string

text \<open>\<^verbatim>\<open>fs.stat(p)\<close> followed by \<^verbatim>\<open>stat.isFile()\<close>.\<close>

definition stat_isFile :: "env \<Rightarrow> string \<Rightarrow> error + bool" where
  "stat_isFile e p =
     (case entry_at e p of
        Missing \<Rightarrow> Inl (ENOENT p)
      | Unreadable \<Rightarrow> Inl (EACCES p)
      | RegularFile \<Rightarrow> Inr True
      | Directory \<Rightarrow> Inr False)"

definition dynamic_import :: "env \<Rightarrow> string \<Rightarrow> error + user_plugins option" where
  "dynamic_import e p =
     (case import_at e p of ImportFails \<Rightarrow> Inl (ImportError p) | Module d \<Rightarrow> Inr d)"

definition defaultOut :: user_plugins where
  "defaultOut = \<lparr>cjs = Some [], esm = Some []\<rparr>"

definition pluginFilePath :: "env \<Rightarrow> string" where
  "pluginFilePath e = path_join [cwd e, ''package-bundler.plugins.js'']"

definition invalid_format_warning :: "string \<Rightarrow> string" where
  "invalid_format_warning p =
     ''User plugins for package-bundler found at '' @ p
     @ '' are an invalid format. Expected default export object in the following shape:''
     @ [CHR 0x0A] @ '' { cjs: [], esm: [] }''"

definition read_error_warning :: "string \<Rightarrow> string" where
  "read_error_warning p = ''Error reading user plugins for package-bundler from '' @ p"

text \<open>
  The body of the \<^verbatim>\<open>try\<close> block. It either throws (\<open>Inl\<close>), or completes with the
  lines it has written to the console and, when it returned, the value returned
  (\<open>None\<close>: the block fell through to the code after the \<^verbatim>\<open>try\<close>).
\<close>

definition readUserPlugins_try :: "env \<Rightarrow> error + (string list \<times> user_plugins option)" where
  "readUserPlugins_try e =
     (case stat_isFile e (pluginFilePath e) of
        Inl err \<Rightarrow> Inl err
      | Inr isFile \<Rightarrow>
          if isFile then
            (case dynamic_import e (pluginFilePath e) of
               Inl err \<Rightarrow> Inl err
             | Inr None \<Rightarrow> Inr ([invalid_format_warning (pluginFilePath e)], Some defaultOut)
             | Inr (Some exported) \<Rightarrow>
                 if cjs exported = None \<and> esm exported = None
                 then Inr ([invalid_format_warning (pluginFilePath e)], Some defaultOut)
                 else Inr ([], Some exported))
          else Inr ([], None))"

text \<open>
  \<^verbatim>\<open>readUserPlugins\<close>: the \<^verbatim>\<open>catch\<close> clause turns whatever the block threw into a
  warning. The result is the promise's outcome, \<open>Inl\<close> for a rejection, together with
  the console lines written.
\<close>

definition readUserPlugins :: "env \<Rightarrow> (error + user_plugins) \<times> string list" where
  "readUserPlugins e =
     (case readUserPlugins_try e of
        Inl err \<Rightarrow> (Inr defaultOut, [read_error_warning (pluginFilePath e)])
      | Inr (warned, Some result) \<Rightarrow> (Inr result, warned)
      | Inr (warned, None) \<Rightarrow> (Inr defaultOut, warned))"

section \<open>The file system\<close>

text \<open>
  The regular files of the machine: absolute, normalised path and contents, each path
  at most once. A directory exists where a file lies below it.
\<close>

type_synonym files = "(string \<times> string) list"

definition dir_prefix :: "string \<Rightarrow> string" where
  "dir_prefix d = (if d = ''/'' then ''/'' else d @ ''/'')"

definition is_file :: "files \<Rightarrow> string \<Rightarrow> bool" where
  "is_file fs p = (p \<in> set (map fst fs))"

definition is_dir :: "files \<Rightarrow> string \<Rightarrow> bool" where
  "is_dir fs d = (d = ''/'' \<or> list_ex (\<lambda>(p, c). prefix (dir_prefix d) p) fs)"

definition dirname :: "string \<Rightarrow> string" where
  "dirname p =
     (let d = rev (drop 1 (dropWhile (\<lambda>c. c \<noteq> CHR ''/'') (rev p)))
      in if d = [] then ''/'' else d)"

text \<open>
  A plain path: not empty, made of letters, digits, \<^verbatim>\<open>/\<close>, \<^verbatim>\<open>.\<close>, \<^verbatim>\<open>_\<close> and
  \<^verbatim>\<open>-\<close> only, and with no segment that begins with \<^verbatim>\<open>-\<close>. In such a path
  fast-glob finds no pattern character, and the shell finds nothing to expand or to
  split and \<^verbatim>\<open>cp\<close> and \<^verbatim>\<open>rm\<close> do not read it as an option. The source pastes
  \<^verbatim>\<open>outDir\<close> into glob patterns (lines 77 and 85) and into shell commands (lines 82
  and 83) as it is; \<open>glob_sync\<close>, \<open>executeCmd_cp_r\<close> and \<open>executeCmd_rm_rf\<close> below
  read their directory as a literal path, which is what the library and the shell do
  with a plain one. A claim about the files after the post-processing is therefore
  stated for a plain output directory, or at a concrete one.
\<close>

definition plain_char :: "char \<Rightarrow> bool" where
  "plain_char c =
     (c \<in> set ''abcdefghijklmnopqrstuvwxyzABCDEFGHIJKLMNOPQRSTUVWXYZ0123456789/._-'')"

definition plain_path :: "string \<Rightarrow> bool" where
  "plain_path p =
     (p \<noteq> [] \<and> list_all plain_char p
      \<and> \<not> list_ex (\<lambda>s. s \<noteq> [] \<and> hd s = CHR ''-'') (split_path p))"

text \<open>
  \<^verbatim>\<open>glob.sync(path.join(dir, '**', '*' + ext), { absolute: true, onlyFiles: true })\<close>
  of fast-glob, for a plain \<open>dir\<close>: the regular files below \<open>dir\<close>, at any depth, whose
  name ends with \<open>ext\<close>, as absolute paths. With the library's default options a
  directory or file whose name begins with a dot is not matched.
\<close>

definition hidden :: "string \<Rightarrow> bool" where
  "hidden s = (s \<noteq> [] \<and> hd s = CHR ''.'')"

definition glob_sync :: "string \<Rightarrow> files \<Rightarrow> string \<Rightarrow> string \<Rightarrow> string list" where
  "glob_sync wd fs dir ext =
     (let base = dir_prefix (resolve wd dir)
      in map fst (filter (\<lambda>(p, c).
           prefix base p
           \<and> \<not> list_ex hidden (split_path (drop (length base) p))
           \<and> suffix ext p) fs))"

text \<open>
  \<^verbatim>\<open>fs.moveSync(src, dest)\<close> of fs-extra, without the \<^verbatim>\<open>overwrite\<close> option: it
  throws when the source is missing and when the destination exists.
\<close>

definition moveSync :: "string \<Rightarrow> string \<Rightarrow> string \<Rightarrow> files \<Rightarrow> error + files" where
  "moveSync wd src dest fs =
     (let s = resolve wd src; d = resolve wd dest
      in if \<not> is_file fs s then Inl (ENOENT s)
         else if is_file fs d \<or> is_dir fs d then Inl (DestExists d)
         else Inr (map (\<lambda>(p, c). if p = s then (d, c) else (p, c)) fs))"

text \<open>
  \<^verbatim>\<open>compiledCJSFiles.forEach(p => fs.moveSync(p, p.replace(/\.js$/, '.cjs.js')))\<close>.
  A move that throws ends the loop; the files are then as the earlier moves left them.
\<close>

fun move_all :: "string \<Rightarrow> string list \<Rightarrow> files \<Rightarrow> (error + unit) \<times> files" where
  "move_all wd [] fs = (Inr (), fs)"
| "move_all wd (p # ps) fs =
     (case moveSync wd p (replace_js_suffix p) fs of
        Inl err \<Rightarrow> (Inl err, fs)
      | Inr fs' \<Rightarrow> move_all wd ps fs')"

text \<open>
  Modelled from the spec: \<^verbatim>\<open>executeCmd\<close> (imported from \<^verbatim>\<open>./executeCmd\<close>, which is
  not among the sources) runs a shell command to its end before the next statement. Here
  the command is \<^verbatim>\<open>cp -r <src>/* <dest>\<close> with plain paths, the spec's "move the
  entire temporary subdirectory's contents up into the output directory root": every
  file below \<open>src\<close> is copied to the same relative position below \<open>dest\<close>, replacing
  a file already there. The shell's \<^verbatim>\<open>*\<close> does not expand to the entries of \<open>src\<close> whose name begins
  with a dot.
\<close>

definition executeCmd_cp_r :: "string \<Rightarrow> string \<Rightarrow> string \<Rightarrow> files \<Rightarrow> files" where
  "executeCmd_cp_r wd src dest fs =
     (let s = dir_prefix (resolve wd src); d = dir_prefix (resolve wd dest)
      in foldl (\<lambda>acc (p, c).
           if prefix s p \<and> \<not> hidden (drop (length s) p)
           then AList.update (d @ drop (length s) p) c acc else acc) fs fs)"

text \<open>
  Modelled from the spec: \<^verbatim>\<open>executeCmd\<close> again, with the command \<^verbatim>\<open>rm -rf <dir>\<close>:
  the directory and every file below it are removed.
\<close>

definition executeCmd_rm_rf :: "string \<Rightarrow> string \<Rightarrow> files \<Rightarrow> files" where
  "executeCmd_rm_rf wd dir fs =
     (let d = resolve wd dir
      in filter (\<lambda>(p, c). p \<noteq> d \<and> \<not> prefix (dir_prefix d) p) fs)"

text \<open>
  \<^verbatim>\<open>fs.writeFileSync(p, data, 'utf8')\<close>: creates or replaces the file; throws when
  the path is a directory and when the directory it is to be in does not exist.
\<close>

definition writeFileSync :: "string \<Rightarrow> string \<Rightarrow> string \<Rightarrow> files \<Rightarrow> error + files" where
  "writeFileSync wd p data fs =
     (let q = resolve wd p
      in if is_dir fs q then Inl (EISDIR q)
         else if is_dir fs (dirname q) then Inr (AList.update q data fs)
         else Inl (ENOENT q))"

section \<open>Manifest stubs\<close>

record manifest =
  main :: string
  module :: string
  name :: string
  types :: string

text \<open>
  \<^verbatim>\<open>JSON.stringify(pJsonTemplate, null, 2)\<close>: the four members in the order of the
  object literal, two spaces of indentation, strings quoted with the escapes of JSON.
\<close>

definition hex_digit :: "nat \<Rightarrow> char" where
  "hex_digit n = ''0123456789abcdef'' ! (n mod 16)"

definition json_escape :: "char \<Rightarrow> string" where
  "json_escape c =
     (if c = CHR 0x22 then [CHR 0x5C, CHR 0x22]
      else if c = CHR 0x5C then [CHR 0x5C, CHR 0x5C]
      else if c = CHR 0x08 then [CHR 0x5C, CHR ''b'']
      else if c = CHR 0x0C then [CHR 0x5C, CHR ''f'']
      else if c = CHR 0x0A then [CHR 0x5C, CHR ''n'']
      else if c = CHR 0x0D then [CHR 0x5C, CHR ''r'']
      else if c = CHR 0x09 then [CHR 0x5C, CHR ''t'']
      else if (of_char c :: nat) < 32
        then [CHR 0x5C, CHR ''u'', CHR ''0'', CHR ''0'',
              hex_digit (of_char c div 16), hex_digit (of_char c)]
      else [c])"

definition json_quote :: "string \<Rightarrow> string" where
  "json_quote s = [CHR 0x22] @ concat (map json_escape s) @ [CHR 0x22]"

definition json_member :: "string \<Rightarrow> string \<Rightarrow> string" where
  "json_member k v = ''  '' @ json_quote k @ '': '' @ json_quote v"

definition JSON_stringify :: "manifest \<Rightarrow> string" where
  "JSON_stringify m =
     ''{'' @ [CHR 0x0A]
     @ json_member ''main'' (main m) @ '','' @ [CHR 0x0A]
     @ json_member ''module'' (module m) @ '','' @ [CHR 0x0A]
     @ json_member ''name'' (name m) @ '','' @ [CHR 0x0A]
     @ json_member ''types'' (types m) @ [CHR 0x0A]
     @ ''}''"

text \<open>
  The body of the last \<^verbatim>\<open>forEach\<close> of \<^verbatim>\<open>buildCJS\<close>, up to the write: the path the
  stub goes to and the stub, from the package name, the output directory as it was
  passed, and the path of a compiled file.
\<close>

definition packageJsonSubPackageName :: "string \<Rightarrow> string \<Rightarrow> string" where
  "packageJsonSubPackageName outDir cjsFilePath =
     strip_trailing_sep (replace (replace cjsFilePath outDir []) (basename cjsFilePath) [])"

definition pJsonTemplate :: "string \<Rightarrow> string \<Rightarrow> string \<Rightarrow> manifest" where
  "pJsonTemplate packageName outDir cjsFilePath =
     \<lparr>main = basename cjsFilePath,
      module = replace (basename cjsFilePath) ''.cjs'' [],
      name = packageName @ ''/''
             @ strip_leading_sep (packageJsonSubPackageName outDir cjsFilePath),
      types = ''index.d.ts''\<rparr>"

definition stub_path :: "string \<Rightarrow> string \<Rightarrow> string" where
  "stub_path outDir cjsFilePath =
     path_join [outDir, ''.'' @ packageJsonSubPackageName outDir cjsFilePath, ''package.json'']"

section \<open>The build wrappers\<close>

text \<open>
  The state the wrappers act on: the files, the lines written with \<^verbatim>\<open>console.warn\<close>,
  the option objects \<^verbatim>\<open>esbuild.build\<close> has been called with, and the
  \<^verbatim>\<open>writeFileSync\<close> calls that went through (resolved path and data).
\<close>

record world =
  fs :: files
  console :: "string list"
  builds :: "build_options list"
  written :: "(string \<times> string) list"

text \<open>
  \<^verbatim>\<open>esbuild.build\<close> is the external bundler: from the options and the files, either a
  rejection or a normal end, and the files as it leaves them in both cases.
\<close>

type_synonym bundler = "build_options \<Rightarrow> files \<Rightarrow> (error + unit) \<times> files"

definition buildESM ::
  "bundler \<Rightarrow> env \<Rightarrow> string list \<Rightarrow> string \<Rightarrow> bool \<Rightarrow> string list \<Rightarrow> world
     \<Rightarrow> (error + unit) \<times> world" where
  "buildESM esbuild_build e srcFilesToCompile outDir sourcemap_arg target_arg w =
     (case readUserPlugins e of
        (Inl err, warned) \<Rightarrow> (Inl err, w\<lparr>console := console w @ warned\<rparr>)
      | (Inr userPlugins, warned) \<Rightarrow>
          let opts = \<lparr>sourcemap = sourcemap_arg, target = target_arg, bundle_opt = False,
                      entryPoints = srcFilesToCompile, format = FormatESM, outdir = outDir,
                      plugins = esm userPlugins\<rparr>;
              (res, fs1) = esbuild_build opts (fs w)
          in (res, w\<lparr>fs := fs1, console := console w @ warned,
                      builds := builds w @ [opts]\<rparr>))"

text \<open>
  The last \<^verbatim>\<open>forEach\<close> of \<^verbatim>\<open>buildCJS\<close>: one stub written for each path, in order.
  A write that throws ends the loop.
\<close>

fun write_stubs :: "string \<Rightarrow> string \<Rightarrow> string \<Rightarrow> string list \<Rightarrow> world \<Rightarrow> (error + unit) \<times> world" where
  "write_stubs wd packageName outDir [] w = (Inr (), w)"
| "write_stubs wd packageName outDir (cjsFilePath # rest) w =
     (let p = stub_path outDir cjsFilePath;
          data = JSON_stringify (pJsonTemplate packageName outDir cjsFilePath)
      in case writeFileSync wd p data (fs w) of
           Inl err \<Rightarrow> (Inl err, w)
         | Inr fs' \<Rightarrow>
             write_stubs wd packageName outDir rest
               (w\<lparr>fs := fs', written := written w @ [(resolve wd p, data)]\<rparr>))"

text \<open>
  The paths the last \<^verbatim>\<open>forEach\<close> runs over: what the second glob finds, without the
  paths that contain \<^verbatim>\<open>dist/index.cjs.js\<close>.
\<close>

definition stub_sources :: "string \<Rightarrow> string \<Rightarrow> files \<Rightarrow> string list" where
  "stub_sources wd outDir fsys =
     filter (\<lambda>cjsFilePath. \<not> str_includes cjsFilePath ''dist/index.cjs.js'')
       (glob_sync wd fsys (path_join [outDir]) ''.cjs.js'')"

definition cjs_options ::
  "user_plugins \<Rightarrow> string list \<Rightarrow> string \<Rightarrow> bool \<Rightarrow> string list \<Rightarrow> string list
     \<Rightarrow> build_options" where
  "cjs_options userPlugins cjsFilesToCompile outDir sourcemap_arg packageJsonFiles target_arg =
     \<lparr>sourcemap = sourcemap_arg, target = target_arg, bundle_opt = True,
      entryPoints = cjsFilesToCompile, format = FormatCJS,
      outdir = path_join [outDir, ''cjs''],
      plugins = Some (nodeExternalsPlugin packageJsonFiles
                      # (case cjs userPlugins of None \<Rightarrow> [] | Some ps \<Rightarrow> ps))\<rparr>"

text \<open>Lines 77 to 104 of \<^verbatim>\<open>buildCJS\<close>: what follows a bundler call that ended normally.\<close>

definition postprocess :: "string \<Rightarrow> string \<Rightarrow> string \<Rightarrow> world \<Rightarrow> (error + unit) \<times> world" where
  "postprocess wd packageName outDir w =
     (let compiledCJSFiles = glob_sync wd (fs w) (path_join [outDir, ''cjs'']) ''.js''
      in case move_all wd compiledCJSFiles (fs w) of
           (Inl err, fs2) \<Rightarrow> (Inl err, w\<lparr>fs := fs2\<rparr>)
         | (Inr u, fs2) \<Rightarrow>
             let fs3 = executeCmd_cp_r wd (path_join [outDir, ''cjs'']) outDir fs2;
                 fs4 = executeCmd_rm_rf wd (path_join [outDir, ''cjs'']) fs3
             in write_stubs wd packageName outDir (stub_sources wd outDir fs4) (w\<lparr>fs := fs4\<rparr>))"

definition buildCJS ::
  "bundler \<Rightarrow> env \<Rightarrow> string \<Rightarrow> string list \<Rightarrow> string \<Rightarrow> bool \<Rightarrow> string list \<Rightarrow> string list
     \<Rightarrow> world \<Rightarrow> (error + unit) \<times> world" where
  "buildCJS esbuild_build e packageName cjsFilesToCompile outDir sourcemap_arg packageJsonFiles
       target_arg w =
     (case readUserPlugins e of
        (Inl err, warned) \<Rightarrow> (Inl err, w\<lparr>console := console w @ warned\<rparr>)
      | (Inr userPlugins, warned) \<Rightarrow>
          let opts = cjs_options userPlugins cjsFilesToCompile outDir sourcemap_arg
                       packageJsonFiles target_arg;
              (res, fs1) = esbuild_build opts (fs w);
              w1 = w\<lparr>fs := fs1, console := console w @ warned, builds := builds w @ [opts]\<rparr>
          in case res of
               Inl err \<Rightarrow> (Inl err, w1)
             | Inr u \<Rightarrow> postprocess (cwd e) packageName outDir w1)"

text \<open>
  A path segment that \<open>normalizeString\<close> keeps as it is, and a path whose last segment
  is a given one.
\<close>

definition plain_segment :: "string \<Rightarrow> bool" where
  "plain_segment nm = (nm \<noteq> [] \<and> CHR ''/'' \<notin> set nm \<and> nm \<noteq> ''.'' \<and> nm \<noteq> ''..'')"

definition ends_with_segment :: "string \<Rightarrow> string \<Rightarrow> bool" where
  "ends_with_segment nm q = (q = nm \<or> suffix (''/'' @ nm) q)"

section \<open>Example surroundings\<close>

text \<open>
  A project in \<^verbatim>\<open>/proj\<close>. \<open>project_env k d\<close> has an entry of kind \<open>k\<close> at
  \<^verbatim>\<open>/proj/package-bundler.plugins.js\<close> whose import gives \<open>d\<close>, and nothing else.
  \<open>emit outputs\<close> is a bundler run that ends normally and leaves the given files,
  named relative to the \<^verbatim>\<open>outdir\<close> it was called with; \<open>failing_bundler\<close> is one
  that rejects after having left part of its output behind.
\<close>

definition project_env :: "entry \<Rightarrow> import_result \<Rightarrow> env" where
  "project_env k d =
     \<lparr>cwd = ''/proj'',
      entry_at = (\<lambda>p. if p = ''/proj/package-bundler.plugins.js'' then k else Missing),
      import_at = (\<lambda>p. d)\<rparr>"

definition project_files :: world where
  "project_files =
     \<lparr>fs = [(''/proj/src/index.ts'', ''export {}'')], console = [], builds = [], written = []\<rparr>"

definition emit :: "(string \<times> string) list \<Rightarrow> bundler" where
  "emit outputs opts fsys =
     (Inr (), fsys @ map (\<lambda>(rel, c). (outdir opts @ ''/'' @ rel, c)) outputs)"

definition failing_bundler :: bundler where
  "failing_bundler opts fsys =
     (Inl (BuildFailure ''Could not resolve ./missing''),
      fsys @ [(outdir opts @ ''/index.js'', ''partial'')])"




definition esm_only_env :: env where
  "esm_only_env =
     project_env RegularFile (Module (Some \<lparr>cjs = None, esm = Some [UserPlugin ''p1'']\<rparr>))"

text \<open>
  Four runs of \<^verbatim>\<open>buildCJS\<close> for the package \<^verbatim>\<open>mylib\<close>, without a plugin file: into
  \<^verbatim>\<open>/proj/dist\<close> and into \<^verbatim>\<open>/proj/build\<close> with the bundler leaving
  \<^verbatim>\<open>index.js\<close> and \<^verbatim>\<open>sub/feature.js\<close>; into \<^verbatim>\<open>/proj/dist\<close> with a compiled file
  \<^verbatim>\<open>a/dist/index.js\<close>; and into \<^verbatim>\<open>/proj/dist\<close> with a compiled file
  \<^verbatim>\<open>cjs/a.js\<close>.
\<close>

definition run_cjs :: "(string \<times> string) list \<Rightarrow> string \<Rightarrow> (error + unit) \<times> world" where
  "run_cjs outputs outDir =
     buildCJS (emit outputs) (project_env Missing ImportFails) ''mylib'' [''src/index.ts'']
       outDir False [''package.json''] [''es2019''] project_files"

definition dist_run :: "(error + unit) \<times> world" where
  "dist_run = run_cjs [(''index.js'', ''i''), (''sub/feature.js'', ''f'')] ''/proj/dist''"

definition build_run :: "(error + unit) \<times> world" where
  "build_run = run_cjs [(''index.js'', ''i''), (''sub/feature.js'', ''f'')] ''/proj/build''"

definition nested_dist_run :: "(error + unit) \<times> world" where
  "nested_dist_run = run_cjs [(''index.js'', ''i''), (''a/dist/index.js'', ''n'')] ''/proj/dist''"

definition nested_cjs_run :: "(error + unit) \<times> world" where
  "nested_cjs_run = run_cjs [(''index.js'', ''i''), (''cjs/a.js'', ''a'')] ''/proj/dist''"

section \<open>Facts about strings and paths\<close>

lemma replace_at_front: "replace (p @ s) p rep = rep @ s"
proof (cases "p @ s")
  case Nil
  then show ?thesis by simp
next
  case (Cons c cs)
  have "prefix p (c # cs)"
    by (metis Cons prefixI)
  then have "replace (c # cs) p rep = rep @ drop (length p) (c # cs)"
    by simp
  also have "drop (length p) (c # cs) = s"
    by (metis Cons append_eq_conv_conj)
  finally show ?thesis
    by (simp add: Cons)
qed

lemma str_includes_mid: "str_includes (a @ sub @ b) sub"
proof (induction a)
  case Nil
  show ?case
  proof (cases "sub @ b")
    case Nil
    then show ?thesis by simp
  next
    case (Cons c cs)
    then have "prefix sub (c # cs)"
      by (metis prefixI)
    then show ?thesis
      by (simp add: Cons)
  qed
next
  case (Cons x a)
  then show ?case by simp
qed

lemma top_index_excluded:
  assumes "suffix ''dist'' root"
  shows "str_includes (root @ ''/index.cjs.js'') ''dist/index.cjs.js''"
proof -
  from assms obtain a where "root = a @ ''dist''"
    by (auto simp: suffix_def)
  then have "root @ ''/index.cjs.js'' = a @ ''dist/index.cjs.js'' @ []"
    by simp
  then show ?thesis
    by (metis str_includes_mid)
qed

lemma split_path_nonempty: "split_path xs \<noteq> []"
  by (induction xs) (auto split: list.splits)

lemma split_path_append: "split_path (xs @ CHR ''/'' # ys) = split_path xs @ split_path ys"
  using split_path_nonempty by (induction xs) (auto split: list.splits)

lemma split_path_no_slash: "CHR ''/'' \<notin> set t \<Longrightarrow> split_path t = [t]"
  by (induction t) auto

lemma split_path_tail:
  "CHR ''/'' \<notin> set t \<Longrightarrow>
     split_path (b @ t) = butlast (split_path b) @ [last (split_path b) @ t]"
proof (induction b)
  case Nil
  then show ?case by (simp add: split_path_no_slash)
next
  case (Cons c b)
  then show ?case
    using split_path_nonempty [of b]
    by (cases "split_path b") (auto split: list.splits)
qed

lemma normalizeString_append:
  "normalizeString a res (xs @ ys) = normalizeString a (normalizeString a res xs) ys"
  by (induction xs arbitrary: res) auto

lemma normalizeString_plain_last:
  "s \<noteq> [] \<Longrightarrow> s \<noteq> ''.'' \<Longrightarrow> s \<noteq> ''..'' \<Longrightarrow>
     normalizeString a res (xs @ [s]) = normalizeString a res xs @ [s]"
  by (simp add: normalizeString_append)

lemma join_segments_snoc:
  "join_segments (R @ [s]) = (if R = [] then s else join_segments R @ ''/'' @ s)"
  by (induction R rule: join_segments.induct) auto

lemma join_segments_two_more:
  "R \<noteq> [] \<Longrightarrow> join_segments (R @ [s, t]) = join_segments R @ ''/'' @ s @ ''/'' @ t"
  using join_segments_snoc [of "R @ [s]" t] join_segments_snoc [of R s] by simp

lemma plain_segment_ends:
  assumes "plain_segment nm"
  shows "nm \<noteq> []" "last nm \<noteq> CHR ''/''" "hd nm \<noteq> CHR ''/''"
proof -
  from assms have ne: "nm \<noteq> []" and ns: "CHR ''/'' \<notin> set nm"
    by (simp_all add: plain_segment_def)
  show "nm \<noteq> []" by fact
  show "last nm \<noteq> CHR ''/''" using last_in_set [OF ne] ns by auto
  show "hd nm \<noteq> CHR ''/''" using hd_in_set [OF ne] ns by auto
qed

lemma segments_plain:
  assumes "plain_segment nm"
  shows "normalizeString a res (split_path (Z @ CHR ''/'' # nm)) =
     normalizeString a res (split_path Z) @ [nm]"
proof -
  from assms have "split_path (Z @ CHR ''/'' # nm) = split_path Z @ [nm]"
    using split_path_append [of Z nm] by (simp add: split_path_no_slash plain_segment_def)
  with assms show ?thesis
    by (simp add: normalizeString_plain_last plain_segment_def)
qed

lemma ends_with_segment_normalize:
  assumes "plain_segment nm"
  shows "ends_with_segment nm (path_normalize (Z @ CHR ''/'' # nm))"
proof -
  note plain_segment_ends [OF assms]
  then show ?thesis
    by (auto simp: path_normalize_def Let_def segments_plain [OF assms] join_segments_snoc
          ends_with_segment_def suffix_def)
qed

lemma path_normalize_plain:
  assumes "plain_segment nm"
  shows "path_normalize nm = nm"
proof -
  from assms have "split_path nm = [nm]" "nm \<noteq> ''.''" "nm \<noteq> ''..''"
    by (auto simp: plain_segment_def split_path_no_slash)
  with plain_segment_ends [OF assms] show ?thesis
    by (simp add: path_normalize_def isAbsolute_def)
qed

lemma ends_with_segment_segments:
  assumes "plain_segment nm"
  shows "ends_with_segment nm
     (CHR ''/'' # join_segments (normalizeString False [] (split_path (Z @ CHR ''/'' # nm))))"
  by (simp add: ends_with_segment_def segments_plain [OF assms] join_segments_snoc suffix_def)

lemma ends_with_segment_resolve:
  assumes pl: "plain_segment nm" and q: "ends_with_segment nm q"
  shows "ends_with_segment nm (resolve wd q)"
proof (cases "isAbsolute q")
  case True
  with plain_segment_ends [OF pl] have "q \<noteq> nm"
    by (auto simp: isAbsolute_def)
  then obtain Z where "q = Z @ CHR ''/'' # nm"
    using q by (auto simp: ends_with_segment_def suffix_def)
  then show ?thesis
    using True ends_with_segment_segments [OF pl, of Z] by (simp add: resolve_def)
next
  case False
  from q obtain Z where "wd @ CHR ''/'' # q = Z @ CHR ''/'' # nm"
    by (auto simp: ends_with_segment_def suffix_def)
  then show ?thesis
    using False ends_with_segment_segments [OF pl, of Z] by (simp add: resolve_def)
qed

lemma ends_with_segment_path_join:
  assumes "plain_segment nm"
  shows "ends_with_segment nm (path_join (args @ [nm]))"
proof -
  from assms have ne: "nm \<noteq> []"
    by (simp add: plain_segment_def)
  let ?xs = "filter (\<lambda>a. a \<noteq> []) args"
  have f: "filter (\<lambda>a. a \<noteq> []) (args @ [nm]) = ?xs @ [nm]"
    using ne by simp
  show ?thesis
  proof (cases ?xs)
    case Nil
    then have "path_join (args @ [nm]) = path_normalize nm"
      unfolding path_join_def f by simp
    then show ?thesis
      by (simp add: path_normalize_plain [OF assms] ends_with_segment_def)
  next
    case (Cons x xs)
    then have "path_join (args @ [nm]) = path_normalize (join_segments (?xs @ [nm]))"
      unfolding path_join_def f by simp
    also have "join_segments (?xs @ [nm]) = join_segments ?xs @ CHR ''/'' # nm"
      using Cons join_segments_snoc [of ?xs nm] by simp
    finally show ?thesis
      using ends_with_segment_normalize [OF assms] by simp
  qed
qed

lemma ends_with_segment_last3:
  assumes "ends_with_segment nm q" and "length nm \<ge> 3"
  shows "drop (length q - 3) q = drop (length nm - 3) nm"
proof -
  from assms(2) have "length nm - 2 = Suc (length nm - 3)"
    by arith
  with assms show ?thesis
    by (auto simp: ends_with_segment_def suffix_def)
qed

lemma stub_target_ends_package_json:
  "ends_with_segment ''package.json'' (resolve wd (stub_path outDir p))"
proof -
  have pl: "plain_segment ''package.json''"
    by (simp add: plain_segment_def)
  have "ends_with_segment ''package.json''
      (path_join ([outDir, ''.'' @ packageJsonSubPackageName outDir p] @ [''package.json'']))"
    using pl by (rule ends_with_segment_path_join)
  then have "ends_with_segment ''package.json'' (stub_path outDir p)"
    by (simp add: stub_path_def)
  with pl show ?thesis
    by (rule ends_with_segment_resolve)
qed

lemma package_json_not_js: "ends_with_segment ''package.json'' q \<Longrightarrow> \<not> suffix ''.js'' q"
  by (auto simp: ends_with_segment_def suffix_def dest!: arg_cong [where f = last])

lemma package_json_not_cjs: "ends_with_segment ''package.json'' q \<Longrightarrow> \<not> suffix ''.cjs.js'' q"
  by (auto simp: ends_with_segment_def suffix_def dest!: arg_cong [where f = last])

lemma not_package_json_cjs_js: "\<not> ends_with_segment ''package.json'' (x @ ''.cjs.js'')"
  by (auto simp: ends_with_segment_def suffix_def dest!: arg_cong [where f = last])

lemma temp_dir_ends_cjs:
  "ends_with_segment ''cjs'' (resolve wd (path_join [outDir, ''cjs'']))"
proof -
  have pl: "plain_segment ''cjs''"
    by (simp add: plain_segment_def)
  have "ends_with_segment ''cjs'' (path_join ([outDir] @ [''cjs'']))"
    using pl by (rule ends_with_segment_path_join)
  then show ?thesis
    using pl by (simp add: ends_with_segment_resolve)
qed

lemma temp_dir_not_cjs_js: "resolve wd (path_join [outDir, ''cjs'']) \<noteq> x @ ''.cjs.js''"
proof
  assume eq: "resolve wd (path_join [outDir, ''cjs'']) = x @ ''.cjs.js''"
  from ends_with_segment_last3 [OF temp_dir_ends_cjs, of wd outDir]
  have "drop (length (x @ ''.cjs.js'') - 3) (x @ ''.cjs.js'') = ''cjs''"
    unfolding eq by simp
  then show False by simp
qed

lemma replace_js_suffix_append: "replace_js_suffix (b @ ''.js'') = b @ ''.cjs.js''"
  by (simp add: replace_js_suffix_def suffix_def)

lemma replace_js_suffix_inj:
  "suffix ''.js'' p \<Longrightarrow> suffix ''.js'' q \<Longrightarrow> replace_js_suffix p = replace_js_suffix q \<Longrightarrow> p = q"
  by (auto simp: suffix_def replace_js_suffix_append)

lemma resolve_js_to_cjs:
  assumes r: "resolve wd p = p" and s: "suffix ''.js'' p"
  shows "resolve wd (replace_js_suffix p) = replace_js_suffix p"
proof -
  from s obtain b where p: "p = b @ ''.js''"
    by (auto simp: suffix_def)
  from r have abs: "isAbsolute p"
    by (cases p) (auto simp: resolve_def isAbsolute_def split: if_splits)
  have b_ne: "b \<noteq> []"
    using abs p by (auto simp: isAbsolute_def)
  then have abs2: "isAbsolute (b @ ''.cjs.js'')" and hdb: "hd b = CHR ''/''"
    using abs p by (auto simp: isAbsolute_def)
  let ?xs = "butlast (split_path b)" and ?l = "last (split_path b)"
  let ?R = "normalizeString False [] ?xs"
  have sp: "split_path (b @ t) = ?xs @ [?l @ t]" if "CHR ''/'' \<notin> set t" for t
    using that by (rule split_path_tail)
  have n1: "normalizeString False [] (split_path (b @ ''.js'')) = ?R @ [?l @ ''.js'']"
    by (subst sp) (auto intro!: normalizeString_plain_last)
  have n2: "normalizeString False [] (split_path (b @ ''.cjs.js'')) = ?R @ [?l @ ''.cjs.js'']"
    by (subst sp) (auto intro!: normalizeString_plain_last)
  let ?J = "if ?R = [] then [] else join_segments ?R @ ''/''"
  from r abs have "b = ''/'' @ ?J @ ?l"
    unfolding p resolve_def by (auto simp: n1 join_segments_snoc split: if_splits)
  then have "b @ ''.cjs.js'' = ''/'' @ ?J @ ?l @ ''.cjs.js''"
    by simp
  also have "\<dots> = resolve wd (b @ ''.cjs.js'')"
    using abs2 by (simp add: resolve_def n2 join_segments_snoc)
  finally show ?thesis
    by (simp add: p replace_js_suffix_append)
qed

lemma path_join_below_normal:
  assumes abs: "isAbsolute d" and norm: "path_normalize d = d" and notr: "last d \<noteq> CHR ''/''"
  shows "path_join [d, ''sub'', ''package.json''] = d @ ''/sub/package.json''"
proof -
  let ?R = "normalizeString False [] (split_path d)"
  from abs have ne: "d \<noteq> []" by (simp add: isAbsolute_def)
  have body: "join_segments ?R \<noteq> []" and d: "d = ''/'' @ join_segments ?R"
    using norm abs ne notr by (auto simp: path_normalize_def Let_def split: if_splits)
  then have R: "?R \<noteq> []" by auto
  have "split_path (d @ ''/sub/package.json'') = split_path d @ [''sub'', ''package.json'']"
    using split_path_append [of d "''sub/package.json''"] by simp
  then have "normalizeString False [] (split_path (d @ ''/sub/package.json''))
      = ?R @ [''sub'', ''package.json'']"
    by (simp add: normalizeString_append)
  then have "path_normalize (d @ ''/sub/package.json'') = ''/'' @ join_segments ?R @ ''/sub/package.json''"
    using abs R by (simp add: path_normalize_def isAbsolute_def Let_def join_segments_two_more)
  with d have "path_normalize (d @ ''/sub/package.json'') = d @ ''/sub/package.json''"
    by simp
  then show ?thesis using ne
    by (simp add: path_join_def)
qed

lemma basename_feature: "basename (d @ ''/sub/feature.cjs.js'') = ''feature.cjs.js''"
  by (simp add: basename_def)

lemma subpackage_of_feature:
  "packageJsonSubPackageName outDir (outDir @ ''/sub/feature.cjs.js'') = ''/sub''"
  by (simp add: packageJsonSubPackageName_def basename_feature replace_at_front
        strip_trailing_sep_def is_sep_def)

lemma stub_path_of_feature:
  "stub_path outDir (outDir @ ''/sub/feature.cjs.js'') = path_join [outDir, ''sub'', ''package.json'']"
proof (cases "outDir = []")
  case True
  then show ?thesis
    using subpackage_of_feature [of "[]"]
    by (simp add: stub_path_def path_join_def path_normalize_def isAbsolute_def)
next
  case False
  have "path_normalize (outDir @ ''/./sub/package.json'') = path_normalize (outDir @ ''/sub/package.json'')"
    using False
    by (simp add: path_normalize_def isAbsolute_def split_path_append normalizeString_append Let_def)
  then show ?thesis using False
    by (simp add: stub_path_def subpackage_of_feature path_join_def)
qed

lemma pJsonTemplate_of_feature:
  "pJsonTemplate pkg outDir (outDir @ ''/sub/feature.cjs.js'')
     = \<lparr>main = ''feature.cjs.js'', module = ''feature.js'', name = pkg @ ''/sub'',
        types = ''index.d.ts''\<rparr>"
  by (simp add: pJsonTemplate_def subpackage_of_feature basename_feature strip_leading_sep_def
        is_sep_def)

lemma resolve_below_normal:
  assumes abs: "isAbsolute d" and norm: "path_normalize d = d" and notr: "last d \<noteq> CHR ''/''"
  shows "resolve wd (d @ ''/sub/package.json'') = d @ ''/sub/package.json''"
proof -
  let ?R = "normalizeString False [] (split_path d)"
  from abs have ne: "d \<noteq> []" by (simp add: isAbsolute_def)
  have body: "join_segments ?R \<noteq> []" and d: "d = ''/'' @ join_segments ?R"
    using norm abs ne notr by (auto simp: path_normalize_def Let_def split: if_splits)
  then have R: "?R \<noteq> []" by auto
  from abs ne have abs': "isAbsolute (d @ ''/sub/package.json'')"
    by (simp add: isAbsolute_def)
  have "split_path (d @ ''/sub/package.json'') = split_path d @ [''sub'', ''package.json'']"
    using split_path_append [of d "''sub/package.json''"] by simp
  then have "normalizeString False [] (split_path (d @ ''/sub/package.json''))
      = ?R @ [''sub'', ''package.json'']"
    by (simp add: normalizeString_append)
  then have "resolve wd (d @ ''/sub/package.json'') = ''/'' @ join_segments ?R @ ''/sub/package.json''"
    using abs' R unfolding resolve_def by (simp add: join_segments_two_more)
  with d show ?thesis
    by simp
qed

section \<open>Facts about the file system\<close>

lemma rename_keys:
  "map fst (map (\<lambda>(p, c). if p = s then (d, c) else (p, c)) al)
     = map (\<lambda>p. if p = s then d else p) (map fst al)"
  by (induction al) auto

lemma rename_distinct:
  assumes "distinct (map fst al)" and "d \<notin> set (map fst al)"
  shows "distinct (map fst (map (\<lambda>(p, c). if p = s then (d, c) else (p, c)) al))"
proof -
  have inj: "inj_on (\<lambda>p. if p = s then d else p) (set (map fst al))"
    using assms(2) by (auto simp: inj_on_def)
  have "distinct (map (\<lambda>p. if p = s then d else p) (map fst al))"
    by (rule iffD2 [OF distinct_map], rule conjI [OF assms(1) inj])
  then show ?thesis
    by (simp only: rename_keys)
qed

lemma rename_map_of:
  assumes "distinct (map fst al)" and "d \<notin> set (map fst al)"
  shows "map_of (map (\<lambda>(p, c). if p = s then (d, c) else (p, c)) al) k
       = (if k = d then map_of al s else if k = s then None else map_of al k)"
  using assms
proof (induction al)
  case Nil
  then show ?case by simp
next
  case (Cons x al)
  obtain p c where x: "x = (p, c)" by (cases x)
  from Cons.prems have d: "d \<noteq> p" "d \<notin> set (map fst al)" and dist: "distinct (map fst al)"
    and p: "p \<notin> set (map fst al)"
    by (auto simp: x)
  have none: "map_of al p = None"
    using p by (simp add: map_of_eq_None_iff)
  have noned: "map_of al d = None"
    using d(2) by (simp add: map_of_eq_None_iff)
  show ?case
    using Cons.IH [OF dist d(2)] d(1) none noned by (auto simp: x)
qed

lemma move_all_content:
  assumes "move_all wd ps fsys = (Inr (), fs2)"
    and "distinct (map fst fsys)" and "distinct ps"
    and "\<forall>p \<in> set ps. resolve wd p = p \<and> suffix ''.js'' p"
    and "set ps \<subseteq> set (map fst fsys)"
  shows "distinct (map fst fs2)
    \<and> (\<forall>p \<in> set ps. map_of fs2 (replace_js_suffix p) = map_of fsys p)
    \<and> (\<forall>k. k \<notin> set ps \<and> k \<notin> replace_js_suffix ` set ps \<longrightarrow> map_of fs2 k = map_of fsys k)
    \<and> set (map fst fs2) = (set (map fst fsys) - set ps) \<union> replace_js_suffix ` set ps"
  using assms
proof (induction ps arbitrary: fsys)
  case Nil
  then show ?case by simp
next
  case (Cons p ps)
  let ?d = "replace_js_suffix p"
  let ?fs' = "map (\<lambda>(q, c). if q = p then (?d, c) else (q, c)) fsys"
  from Cons.prems(4) have rp: "resolve wd p = p" and sp: "suffix ''.js'' p"
    by auto
  then have rd: "resolve wd ?d = ?d"
    by (rule resolve_js_to_cjs)
  from Cons.prems(1) have mv: "moveSync wd p ?d fsys = Inr ?fs'"
    and rest: "move_all wd ps ?fs' = (Inr (), fs2)"
    by (auto simp: moveSync_def rp rd Let_def split: sum.splits if_splits)
  from mv have fresh: "?d \<notin> set (map fst fsys)"
    by (auto simp: moveSync_def rp rd Let_def is_file_def split: if_splits)
  have dist': "distinct (map fst ?fs')"
    using Cons.prems(2) fresh by (rule rename_distinct)
  have "set (map fst ?fs') = (\<lambda>q. if q = p then ?d else q) ` set (map fst fsys)"
    by (simp only: rename_keys set_map)
  also have "\<dots> = (set (map fst fsys) - {p}) \<union> {?d}"
  proof -
    from Cons.prems(5) have "p \<in> set (map fst fsys)"
      by simp
    then show ?thesis
      by (force simp: image_iff)
  qed
  finally have keys': "set (map fst ?fs') = (set (map fst fsys) - {p}) \<union> {?d}" .
  have mo: "map_of ?fs' k = (if k = ?d then map_of fsys p else if k = p then None else map_of fsys k)" for k
    using Cons.prems(2) fresh by (rule rename_map_of)
  have sub': "set ps \<subseteq> set (map fst ?fs')"
    using Cons.prems(3,5) keys' by auto
  from Cons.prems(3,4) have d3: "distinct ps" and a4: "\<forall>q \<in> set ps. resolve wd q = q \<and> suffix ''.js'' q"
    by auto
  note IH = Cons.IH [OF rest dist' d3 a4 sub']
  have d_not_ps: "?d \<notin> set ps"
    using Cons.prems(5) fresh by auto
  have d_not_img: "?d \<notin> replace_js_suffix ` set ps"
  proof
    assume "?d \<in> replace_js_suffix ` set ps"
    then obtain q where q: "q \<in> set ps" "?d = replace_js_suffix q"
      by auto
    with a4 sp have "p = q"
      by (auto intro: replace_js_suffix_inj)
    with q(1) Cons.prems(3) show False
      by simp
  qed
  have head: "map_of fs2 ?d = map_of fsys p"
    using IH d_not_ps d_not_img mo [of ?d] by simp
  have tail: "map_of fs2 (replace_js_suffix q) = map_of fsys q" if "q \<in> set ps" for q
  proof -
    from that Cons.prems(3) have "q \<noteq> p" by auto
    moreover from that Cons.prems(5) fresh have "q \<noteq> ?d" by auto
    ultimately show ?thesis
      using IH that mo [of q] by simp
  qed
  have other: "map_of fs2 k = map_of fsys k"
    if "k \<notin> set (p # ps)" "k \<notin> replace_js_suffix ` set (p # ps)" for k
    using IH that mo [of k] by simp
  have keys2: "set (map fst fs2) = (set (map fst fsys) - set (p # ps)) \<union> replace_js_suffix ` set (p # ps)"
    using IH keys' d_not_ps Cons.prems(3) by auto
  show ?case
    using IH head tail other keys2 by auto
qed

lemma map_of_filter_key:
  "map_of (filter (\<lambda>(q, c). P q) al) k = (if P k then map_of al k else None)"
  by (induction al) auto

lemma copy_untouched:
  "\<forall>(q, c) \<in> set xs. prefix s q \<and> \<not> hidden (drop (length s) q) \<longrightarrow> d @ drop (length s) q \<noteq> k \<Longrightarrow>
     map_of (foldl (\<lambda>acc (p, c).
           if prefix s p \<and> \<not> hidden (drop (length s) p)
           then AList.update (d @ drop (length s) p) c acc else acc) acc xs) k = map_of acc k"
proof (induction xs arbitrary: acc)
  case Nil
  then show ?case by simp
next
  case (Cons x xs)
  obtain q c' where x: "x = (q, c')" by (cases x)
  let ?acc' = "if prefix s q \<and> \<not> hidden (drop (length s) q)
               then AList.update (d @ drop (length s) q) c' acc else acc"
  from Cons.prems have here: "prefix s q \<and> \<not> hidden (drop (length s) q)
       \<longrightarrow> d @ drop (length s) q \<noteq> k"
    and later: "\<forall>(q, c) \<in> set xs. prefix s q \<and> \<not> hidden (drop (length s) q)
       \<longrightarrow> d @ drop (length s) q \<noteq> k"
    by (auto simp: x)
  from here have "map_of ?acc' k = map_of acc k"
    by (auto simp: update_conv')
  with Cons.IH [OF later, of ?acc'] show ?case
    by (simp add: x)
qed

lemma copy_written:
  assumes "(p, c) \<in> set xs" and "distinct (map fst xs)"
    and "prefix s p" and "\<not> hidden (drop (length s) p)"
  shows "map_of (foldl (\<lambda>acc (p, c).
           if prefix s p \<and> \<not> hidden (drop (length s) p)
           then AList.update (d @ drop (length s) p) c acc else acc) acc xs)
         (d @ drop (length s) p) = Some c"
  using assms(1,2)
proof (induction xs arbitrary: acc)
  case Nil
  then show ?case by simp
next
  case (Cons x xs)
  obtain q c' where x: "x = (q, c')" by (cases x)
  show ?case
  proof (cases "q = p")
    case True
    with Cons.prems x have c': "c' = c" and notin: "p \<notin> set (map fst xs)"
      by (auto simp: rev_image_eqI)
    have "d @ drop (length s) q' \<noteq> d @ drop (length s) p"
      if in_xs: "(q', c'') \<in> set xs" and pre: "prefix s q'" for q' c''
    proof
      assume eq: "d @ drop (length s) q' = d @ drop (length s) p"
      from pre assms(3) eq have "q' = p"
        by (auto simp: prefix_def)
      with in_xs notin show False
        by (auto simp: rev_image_eqI)
    qed
    then have "\<forall>(q, c) \<in> set xs. prefix s q \<and> \<not> hidden (drop (length s) q)
            \<longrightarrow> d @ drop (length s) q \<noteq> d @ drop (length s) p"
      by blast
    from copy_untouched [OF this] show ?thesis
      using assms(3,4) True by (simp add: x c' update_conv')
  next
    case False
    with Cons.prems x have "(p, c) \<in> set xs" "distinct (map fst xs)"
      by auto
    from Cons.IH [OF this] show ?thesis
      by (simp add: x)
  qed
qed

lemma hidden_first_segment:
  "hidden rel \<Longrightarrow> list_ex hidden (split_path rel)"
  by (cases rel) (auto simp: hidden_def split: list.splits)

lemma dir_prefix_last: "last (dir_prefix d) = CHR ''/''"
  by (simp add: dir_prefix_def)

lemma js_below_directory:
  assumes "prefix base p" and "base \<noteq> []" and "last base = CHR ''/''" and "suffix ''.js'' p"
    and "\<not> list_ex hidden (split_path (drop (length base) p))"
  shows "\<exists>rel. p = base @ rel @ ''.js'' \<and> \<not> hidden (rel @ ''.cjs.js'')"
proof -
  from assms(1) obtain r where p: "p = base @ r"
    by (auto simp: prefix_def)
  from assms(4) have "suffix ''.js'' r \<or> (\<exists>xs'. ''.js'' = xs' @ r \<and> suffix xs' base)"
    unfolding p by (simp add: suffix_append)
  then have "suffix ''.js'' r"
  proof
    assume "\<exists>xs'. ''.js'' = xs' @ r \<and> suffix xs' base"
    then obtain xs' where x: "''.js'' = xs' @ r" and sx: "suffix xs' base"
      by auto
    show ?thesis
    proof (cases "xs' = []")
      case True
      with x show ?thesis by simp
    next
      case False
      with sx assms(2,3) have "last xs' = CHR ''/''"
        by (auto simp: suffix_def)
      moreover from x False have "xs' = ''.'' \<or> xs' = ''.j'' \<or> xs' = ''.js''"
        by (auto simp: append_eq_Cons_conv Cons_eq_append_conv)
      ultimately show ?thesis by auto
    qed
  qed
  then obtain rel where r: "r = rel @ ''.js''"
    by (auto simp: suffix_def)
  from assms(5) have "\<not> hidden r"
    using hidden_first_segment [of r] by (auto simp: p)
  then have "\<not> hidden (rel @ ''.cjs.js'')"
    unfolding r by (cases rel) (auto simp: hidden_def)
  with p r show ?thesis
    by auto
qed

lemma glob_sync_facts:
  assumes "p \<in> set (glob_sync wd fsys dir ext)"
  shows "p \<in> set (map fst fsys)"
    and "prefix (dir_prefix (resolve wd dir)) p"
    and "\<not> list_ex hidden (split_path (drop (length (dir_prefix (resolve wd dir))) p))"
    and "suffix ext p"
  using assms by (auto simp: glob_sync_def Let_def)

lemma glob_sync_distinct:
  "distinct (map fst fsys) \<Longrightarrow> distinct (glob_sync wd fsys dir ext)"
  by (simp add: glob_sync_def Let_def distinct_map_filter)

lemma filter_update_other:
  "\<not> P q \<Longrightarrow>
     map fst (filter (\<lambda>(p, c). P p) (AList.update q v al)) = map fst (filter (\<lambda>(p, c). P p) al)"
  by (induction al) auto

lemma glob_sync_update:
  assumes "\<not> suffix ext q"
  shows "glob_sync wd (AList.update q v al) dir ext = glob_sync wd al dir ext"
proof -
  let ?base = "dir_prefix (resolve wd dir)"
  let ?P = "\<lambda>p. prefix ?base p \<and> \<not> list_ex hidden (split_path (drop (length ?base) p))
              \<and> suffix ext p"
  have "\<not> ?P q" using assms by simp
  then have "map fst (filter (\<lambda>(p, c). ?P p) (AList.update q v al))
      = map fst (filter (\<lambda>(p, c). ?P p) al)"
    by (rule filter_update_other)
  then show ?thesis
    by (simp add: glob_sync_def Let_def)
qed

lemma glob_sync_after_rm_rf: "glob_sync wd (executeCmd_rm_rf wd dir fsys) dir ext = []"
  by (auto simp: glob_sync_def executeCmd_rm_rf_def Let_def filter_empty_conv)

section \<open>Facts about the loader and the wrappers\<close>

lemma readUserPlugins_resolves: "\<exists>up. fst (readUserPlugins e) = Inr up"
  by (auto simp: readUserPlugins_def split: sum.splits prod.splits option.splits)




lemma buildESM_unfolded:
  assumes "fst (readUserPlugins e) = Inr up"
    and "opts = \<lparr>sourcemap = sm, target = tg, bundle_opt = False, entryPoints = srcs,
                 format = FormatESM, outdir = outDir, plugins = esm up\<rparr>"
  shows "buildESM esbuild_build e srcs outDir sm tg w
       = (fst (esbuild_build opts (fs w)),
          w\<lparr>fs := snd (esbuild_build opts (fs w)),
            console := console w @ snd (readUserPlugins e),
            builds := builds w @ [opts]\<rparr>)"
proof -
  from assms obtain warned where "readUserPlugins e = (Inr up, warned)"
    by (cases "readUserPlugins e") simp
  then show ?thesis
    using assms(2) by (auto simp: buildESM_def Let_def split: prod.splits)
qed


lemma write_stubs_glob:
  assumes "write_stubs wd pkg outDir ps w = (Inr (), w')"
    and ext: "\<And>q. ends_with_segment ''package.json'' q \<Longrightarrow> \<not> suffix ext q"
  shows "glob_sync wd (fs w') dir ext = glob_sync wd (fs w) dir ext"
  using assms(1)
proof (induction ps arbitrary: w)
  case Nil
  then show ?case by simp
next
  case (Cons p ps)
  let ?q = "resolve wd (stub_path outDir p)"
  let ?data = "JSON_stringify (pJsonTemplate pkg outDir p)"
  from Cons.prems obtain fs' where
    wr: "writeFileSync wd (stub_path outDir p) ?data (fs w) = Inr fs'" and
    rest: "write_stubs wd pkg outDir ps (w\<lparr>fs := fs', written := written w @ [(?q, ?data)]\<rparr>)
             = (Inr (), w')"
    by (auto simp: Let_def split: sum.splits)
  from wr have fs': "fs' = AList.update ?q ?data (fs w)"
    by (auto simp: writeFileSync_def Let_def split: if_splits)
  have "\<not> suffix ext ?q"
    by (rule ext) (rule stub_target_ends_package_json)
  then have "glob_sync wd fs' dir ext = glob_sync wd (fs w) dir ext"
    unfolding fs' by (rule glob_sync_update)
  with Cons.IH [OF rest] show ?case
    by simp
qed

lemma update_last_wins:
  "map_of (foldl (\<lambda>acc p. AList.update (k p) (v p) acc) al ps) q
     = (case filter (\<lambda>p. k p = q) ps of
          [] \<Rightarrow> map_of al q
        | x # xs \<Rightarrow> Some (v (last (x # xs))))"
proof (induction ps arbitrary: al rule: rev_induct)
  case Nil
  then show ?case by simp
next
  case (snoc p ps)
  show ?case
    using snoc.IH [of al] by (auto simp: update_conv' split: list.splits)
qed

lemma write_stubs_files:
  "write_stubs wd pkg outDir ps w = (Inr (), w') \<Longrightarrow>
     fs w' = foldl (\<lambda>acc p. AList.update (resolve wd (stub_path outDir p))
                                (JSON_stringify (pJsonTemplate pkg outDir p)) acc) (fs w) ps"
proof (induction ps arbitrary: w)
  case Nil
  then show ?case by simp
next
  case (Cons p ps)
  let ?q = "resolve wd (stub_path outDir p)"
  let ?data = "JSON_stringify (pJsonTemplate pkg outDir p)"
  from Cons.prems obtain fs' where
    wr: "writeFileSync wd (stub_path outDir p) ?data (fs w) = Inr fs'" and
    rest: "write_stubs wd pkg outDir ps (w\<lparr>fs := fs', written := written w @ [(?q, ?data)]\<rparr>)
             = (Inr (), w')"
    by (auto simp: Let_def split: sum.splits)
  from wr have fs': "fs' = AList.update ?q ?data (fs w)"
    by (auto simp: writeFileSync_def Let_def split: if_splits)
  from Cons.IH [OF rest] show ?case
    by (simp add: fs')
qed

lemma write_stubs_map_of:
  "write_stubs wd pkg outDir ps w = (Inr (), w') \<Longrightarrow>
     \<not> ends_with_segment ''package.json'' k \<Longrightarrow> map_of (fs w') k = map_of (fs w) k"
proof (induction ps arbitrary: w)
  case Nil
  then show ?case by simp
next
  case (Cons p ps)
  let ?q = "resolve wd (stub_path outDir p)"
  let ?data = "JSON_stringify (pJsonTemplate pkg outDir p)"
  from Cons.prems(1) obtain fs' where
    wr: "writeFileSync wd (stub_path outDir p) ?data (fs w) = Inr fs'" and
    rest: "write_stubs wd pkg outDir ps (w\<lparr>fs := fs', written := written w @ [(?q, ?data)]\<rparr>)
             = (Inr (), w')"
    by (auto simp: Let_def split: sum.splits)
  from wr have fs': "fs' = AList.update ?q ?data (fs w)"
    by (auto simp: writeFileSync_def Let_def split: if_splits)
  have "k \<noteq> ?q"
    using Cons.prems(2) stub_target_ends_package_json [of wd outDir p] by auto
  then have "map_of fs' k = map_of (fs w) k"
    by (simp add: fs' update_conv')
  with Cons.IH [OF rest Cons.prems(2)] show ?case
    by simp
qed

lemma postprocess_stub_file:
  assumes pp: "postprocess wd pkg outDir w = (Inr (), w')"
    and src: "p \<in> set (stub_sources wd outDir (fs w'))"
    and lst: "last (filter (\<lambda>p'. resolve wd (stub_path outDir p') = resolve wd (stub_path outDir p))
                 (stub_sources wd outDir (fs w'))) = p"
  shows "map_of (fs w') (resolve wd (stub_path outDir p))
           = Some (JSON_stringify (pJsonTemplate pkg outDir p))"
proof -
  from pp obtain fs4 where
    ws: "write_stubs wd pkg outDir (stub_sources wd outDir fs4) (w\<lparr>fs := fs4\<rparr>) = (Inr (), w')"
    by (auto simp: postprocess_def Let_def split: prod.splits sum.splits)
  have "glob_sync wd (fs w') (path_join [outDir]) ''.cjs.js''
      = glob_sync wd fs4 (path_join [outDir]) ''.cjs.js''"
    using write_stubs_glob [OF ws package_json_not_cjs] by simp
  then have same: "stub_sources wd outDir fs4 = stub_sources wd outDir (fs w')"
    by (simp add: stub_sources_def)
  let ?k = "\<lambda>p'. resolve wd (stub_path outDir p')"
  let ?v = "\<lambda>p'. JSON_stringify (pJsonTemplate pkg outDir p')"
  let ?srcs = "stub_sources wd outDir (fs w')"
  from write_stubs_files [OF ws] have files: "fs w' = foldl (\<lambda>acc p'. AList.update (?k p') (?v p') acc) fs4 ?srcs"
    by (simp add: same)
  from src have "filter (\<lambda>p'. ?k p' = ?k p) ?srcs \<noteq> []"
    by (auto simp: filter_empty_conv)
  then obtain x xs where f: "filter (\<lambda>p'. ?k p' = ?k p) ?srcs = x # xs"
    by (cases "filter (\<lambda>p'. ?k p' = ?k p) ?srcs") auto
  have "map_of (foldl (\<lambda>acc p'. AList.update (?k p') (?v p') acc) fs4 ?srcs) (?k p)
      = Some (?v (last (x # xs)))"
    by (simp add: update_last_wins [where k = ?k and v = ?v] f)
  with lst f files show ?thesis
    by simp
qed

lemma buildCJS_stub_file:
  assumes run: "buildCJS esbuild_build e pkg entries outDir sm pkgs tg w = (Inr (), w')"
    and src: "p \<in> set (stub_sources (cwd e) outDir (fs w'))"
    and lst: "last (filter (\<lambda>p'. resolve (cwd e) (stub_path outDir p') = resolve (cwd e) (stub_path outDir p))
                 (stub_sources (cwd e) outDir (fs w'))) = p"
  shows "map_of (fs w') (resolve (cwd e) (stub_path outDir p))
           = Some (JSON_stringify (pJsonTemplate pkg outDir p))"
proof -
  from run obtain w1 where "postprocess (cwd e) pkg outDir w1 = (Inr (), w')"
    by (auto simp: buildCJS_def Let_def split: prod.splits sum.splits)
  from postprocess_stub_file [OF this src lst] show ?thesis .
qed

lemma temporary_directory_emptied:
  assumes "postprocess wd pkg outDir w = (Inr (), w')"
  shows "glob_sync wd (fs w') (path_join [outDir, ''cjs'']) ''.js'' = []"
proof -
  from assms obtain fs3 where
    ws: "write_stubs wd pkg outDir
           (stub_sources wd outDir (executeCmd_rm_rf wd (path_join [outDir, ''cjs'']) fs3))
           (w\<lparr>fs := executeCmd_rm_rf wd (path_join [outDir, ''cjs'']) fs3\<rparr>) = (Inr (), w')"
    by (auto simp: postprocess_def Let_def split: prod.splits sum.splits)
  from write_stubs_glob [OF ws package_json_not_js] show ?thesis
    by (simp add: glob_sync_after_rm_rf)
qed

lemma compiled_file_moved_up:
  assumes pp: "postprocess wd pkg outDir w = (Inr (), w')"
    and dist: "distinct (map fst (fs w))"
    and norm: "\<forall>q \<in> set (map fst (fs w)). resolve wd q = q"
    and pin: "p \<in> set (glob_sync wd (fs w) (path_join [outDir, ''cjs'']) ''.js'')"
  shows "\<exists>rel. p = dir_prefix (resolve wd (path_join [outDir, ''cjs''])) @ rel @ ''.js'' \<and>
     (\<not> prefix (dir_prefix (resolve wd (path_join [outDir, ''cjs''])))
          (dir_prefix (resolve wd outDir) @ rel @ ''.cjs.js'')
      \<longrightarrow> map_of (fs w') (dir_prefix (resolve wd outDir) @ rel @ ''.cjs.js'') = map_of (fs w) p)"
proof -
  let ?tmp = "path_join [outDir, ''cjs'']"
  let ?T = "dir_prefix (resolve wd ?tmp)" and ?O = "dir_prefix (resolve wd outDir)"
  let ?G = "glob_sync wd (fs w) ?tmp ''.js''"
  obtain res fs2 where mv0: "move_all wd ?G (fs w) = (res, fs2)"
    by (cases "move_all wd ?G (fs w)")
  from pp mv0 have res: "res = Inr ()"
    by (cases res) (simp_all add: postprocess_def Let_def)
  from mv0 res have mv: "move_all wd ?G (fs w) = (Inr (), fs2)"
    by simp
  from pp mv have ws: "write_stubs wd pkg outDir
               (stub_sources wd outDir (executeCmd_rm_rf wd ?tmp (executeCmd_cp_r wd ?tmp outDir fs2)))
               (w\<lparr>fs := executeCmd_rm_rf wd ?tmp (executeCmd_cp_r wd ?tmp outDir fs2)\<rparr>)
             = (Inr (), w')"
    by (simp add: postprocess_def Let_def)
  let ?fs3 = "executeCmd_cp_r wd ?tmp outDir fs2"
  let ?fs4 = "executeCmd_rm_rf wd ?tmp ?fs3"
  have G_keys: "set ?G \<subseteq> set (map fst (fs w))"
    using glob_sync_facts(1) by blast
  have G_js: "\<forall>q \<in> set ?G. resolve wd q = q \<and> suffix ''.js'' q"
    using glob_sync_facts(1,4) norm by blast
  note moved = move_all_content [OF mv dist glob_sync_distinct [OF dist] G_js G_keys]
  from moved pin have content: "map_of fs2 (replace_js_suffix p) = map_of (fs w) p"
    and dist2: "distinct (map fst fs2)"
    by auto
  from pin G_keys have "p \<in> set (map fst (fs w))"
    by blast
  then obtain c where c: "map_of (fs w) p = Some c"
    by (cases "map_of (fs w) p") (auto simp: map_of_eq_None_iff)
  have T_ne: "?T \<noteq> []"
    by (simp add: dir_prefix_def)
  from js_below_directory [OF glob_sync_facts(2) [OF pin] T_ne dir_prefix_last
      glob_sync_facts(4) [OF pin] glob_sync_facts(3) [OF pin]]
  obtain rel where p: "p = ?T @ rel @ ''.js''" and vis: "\<not> hidden (rel @ ''.cjs.js'')"
    by auto
  have rp: "replace_js_suffix p = ?T @ rel @ ''.cjs.js''"
    using replace_js_suffix_append [of "?T @ rel"] by (simp add: p)
  have in2: "(?T @ rel @ ''.cjs.js'', c) \<in> set fs2"
    using content c rp by (auto dest: map_of_SomeD)
  have "map_of ?fs3 (?O @ drop (length ?T) (?T @ rel @ ''.cjs.js'')) = Some c"
    unfolding executeCmd_cp_r_def Let_def
    by (rule copy_written [OF in2 dist2]) (simp_all add: vis)
  then have copied: "map_of ?fs3 (?O @ rel @ ''.cjs.js'') = Some c"
    by simp
  have kept: "map_of (fs w') (?O @ rel @ ''.cjs.js'') = Some c"
    if out: "\<not> prefix ?T (?O @ rel @ ''.cjs.js'')"
  proof -
    have "?O @ rel @ ''.cjs.js'' \<noteq> resolve wd ?tmp"
      using temp_dir_not_cjs_js [of wd outDir "?O @ rel"] by (simp add: eq_commute)
    with out have "map_of ?fs4 (?O @ rel @ ''.cjs.js'') = map_of ?fs3 (?O @ rel @ ''.cjs.js'')"
      unfolding executeCmd_rm_rf_def Let_def by (simp add: map_of_filter_key)
    moreover have "map_of (fs w') (?O @ rel @ ''.cjs.js'') = map_of ?fs4 (?O @ rel @ ''.cjs.js'')"
      using write_stubs_map_of [OF ws, of "?O @ rel @ ''.cjs.js''"]
        not_package_json_cjs_js [of "?O @ rel"] by simp
    ultimately show ?thesis
      using copied by simp
  qed
  from kept c have "\<not> prefix ?T (?O @ rel @ ''.cjs.js'')
      \<longrightarrow> map_of (fs w') (?O @ rel @ ''.cjs.js'') = map_of (fs w) p"
    by simp
  with p show ?thesis
    by blast
qed

lemma pluginFilePath_project_env:
  "pluginFilePath (project_env k d) = ''/proj/package-bundler.plugins.js''"
  by (simp add: pluginFilePath_def project_env_def path_join_def path_normalize_def isAbsolute_def)

lemma project_env_at:
  "entry_at (project_env k d) ''/proj/package-bundler.plugins.js'' = k"
  "import_at (project_env k d) ''/proj/package-bundler.plugins.js'' = d"
  by (simp_all add: project_env_def)


lemma readUserPlugins_esm_only:
  "readUserPlugins esm_only_env = (Inr \<lparr>cjs = None, esm = Some [UserPlugin ''p1'']\<rparr>, [])"
  by (simp add: esm_only_env_def readUserPlugins_def readUserPlugins_try_def stat_isFile_def
        dynamic_import_def pluginFilePath_project_env project_env_at)



lemma plain_path_dist: "plain_path ''/proj/dist''"
  by code_simp

lemma buildCJS_rejected:
  assumes "fst (readUserPlugins e) = Inr up"
    and "esbuild_build (cjs_options up entries outDir sm pkgs tg) (fs w) = (Inl err, left_behind)"
  shows "buildCJS esbuild_build e pkg entries outDir sm pkgs tg w
     = (Inl err, w\<lparr>fs := left_behind, console := console w @ snd (readUserPlugins e),
                     builds := builds w @ [cjs_options up entries outDir sm pkgs tg]\<rparr>)"
  using assms
  by (cases "readUserPlugins e") (auto simp: buildCJS_def Let_def split: prod.splits sum.splits)

section \<open>The plugin loader\<close>

text \<open>
  Claim C7. When nothing exists at the conventional path, \<^verbatim>\<open>package-bundler.plugins.js\<close>
  in the working directory, the loader's promise resolves, with \<^verbatim>\<open>{ cjs: [], esm: [] }\<close>.
  (\<^verbatim>\<open>fs.stat\<close> rejects there, so the way to this result is the \<^verbatim>\<open>catch\<close> clause,
  which writes one line to the console.)
\<close>

theorem readUserPlugins_no_file:
  "entry_at e (pluginFilePath e) = Missing \<Longrightarrow>
     pluginFilePath e = path_join [cwd e, ''package-bundler.plugins.js''] \<and>
     readUserPlugins e =
       (Inr \<lparr>cjs = Some [], esm = Some []\<rparr>, [read_error_warning (pluginFilePath e)])"
  by (simp add: readUserPlugins_def readUserPlugins_try_def stat_isFile_def defaultOut_def
        pluginFilePath_def)

theorem readUserPlugins_no_file_witness:
  "entry_at (project_env Missing ImportFails) ''/proj/package-bundler.plugins.js'' = Missing \<and>
   readUserPlugins (project_env Missing ImportFails) =
     (Inr \<lparr>cjs = Some [], esm = Some []\<rparr>,
      [''Error reading user plugins for package-bundler from /proj/package-bundler.plugins.js''])"
proof -
  have h: "entry_at (project_env Missing ImportFails)
             (pluginFilePath (project_env Missing ImportFails)) = Missing"
    by (simp add: pluginFilePath_project_env project_env_at)
  from readUserPlugins_no_file [OF h] h show ?thesis
    by (simp add: pluginFilePath_project_env read_error_warning_def)
qed

text \<open>
  Claim C10. When the conventional path exists but is not a regular file, the loader
  returns \<^verbatim>\<open>{ cjs: [], esm: [] }\<close> and writes no warning; it does not import the
  path, so the result is the same whatever an import of it would have given.
\<close>

theorem readUserPlugins_not_regular:
  "entry_at e (pluginFilePath e) = Directory \<Longrightarrow>
     readUserPlugins (e\<lparr>import_at := imp\<rparr>) = (Inr \<lparr>cjs = Some [], esm = Some []\<rparr>, [])"
  by (simp add: readUserPlugins_def readUserPlugins_try_def stat_isFile_def defaultOut_def
        pluginFilePath_def)

theorem readUserPlugins_not_regular_witness:
  "entry_at (project_env Directory ImportFails) ''/proj/package-bundler.plugins.js'' = Directory \<and>
   readUserPlugins (project_env Directory (Module (Some \<lparr>cjs = Some [UserPlugin ''p1''], esm = None\<rparr>)))
     = (Inr \<lparr>cjs = Some [], esm = Some []\<rparr>, [])"
proof -
  have h: "entry_at (project_env Directory ImportFails)
             (pluginFilePath (project_env Directory ImportFails)) = Directory"
    by (simp add: pluginFilePath_project_env project_env_at)
  have "(project_env Directory ImportFails)
          \<lparr>import_at := \<lambda>p. Module (Some \<lparr>cjs = Some [UserPlugin ''p1''], esm = None\<rparr>)\<rparr>
        = project_env Directory (Module (Some \<lparr>cjs = Some [UserPlugin ''p1''], esm = None\<rparr>))"
    by (simp add: project_env_def)
  with readUserPlugins_not_regular [OF h,
      of "\<lambda>p. Module (Some \<lparr>cjs = Some [UserPlugin ''p1''], esm = None\<rparr>)"] h
  show ?thesis
    by (simp add: pluginFilePath_project_env)
qed

text \<open>
  Claim C6. A plugin file without a default export, or whose default export has neither
  a \<^verbatim>\<open>cjs\<close> nor an \<^verbatim>\<open>esm\<close> field, makes the loader write the invalid-format
  warning and return \<^verbatim>\<open>{ cjs: [], esm: [] }\<close>; a plugin file that fails to load, or
  a path that cannot be read, makes it write the read-error warning and return the same
  value; and the loader's promise is never rejected.
\<close>

theorem readUserPlugins_falls_back:
  "(entry_at e (pluginFilePath e) = RegularFile \<and>
      (import_at e (pluginFilePath e) = Module None \<or>
       import_at e (pluginFilePath e) = Module (Some \<lparr>cjs = None, esm = None\<rparr>))
     \<longrightarrow> readUserPlugins e =
          (Inr \<lparr>cjs = Some [], esm = Some []\<rparr>, [invalid_format_warning (pluginFilePath e)]))
   \<and> ((entry_at e (pluginFilePath e) = RegularFile \<and> import_at e (pluginFilePath e) = ImportFails)
        \<or> entry_at e (pluginFilePath e) = Unreadable
     \<longrightarrow> readUserPlugins e =
          (Inr \<lparr>cjs = Some [], esm = Some []\<rparr>, [read_error_warning (pluginFilePath e)]))
   \<and> (\<exists>up. fst (readUserPlugins e) = Inr up)"
  by (auto simp: readUserPlugins_def readUserPlugins_try_def stat_isFile_def defaultOut_def
        dynamic_import_def split: sum.splits prod.splits option.splits)

theorem readUserPlugins_falls_back_witness:
  "readUserPlugins (project_env RegularFile (Module None)) =
     (Inr \<lparr>cjs = Some [], esm = Some []\<rparr>,
      [invalid_format_warning ''/proj/package-bundler.plugins.js''])
   \<and> readUserPlugins (project_env RegularFile (Module (Some \<lparr>cjs = None, esm = None\<rparr>))) =
     (Inr \<lparr>cjs = Some [], esm = Some []\<rparr>,
      [invalid_format_warning ''/proj/package-bundler.plugins.js''])
   \<and> readUserPlugins (project_env RegularFile ImportFails) =
     (Inr \<lparr>cjs = Some [], esm = Some []\<rparr>,
      [read_error_warning ''/proj/package-bundler.plugins.js''])
   \<and> readUserPlugins (project_env Unreadable ImportFails) =
     (Inr \<lparr>cjs = Some [], esm = Some []\<rparr>,
      [read_error_warning ''/proj/package-bundler.plugins.js''])"
proof -
  show ?thesis
    using readUserPlugins_falls_back [of "project_env RegularFile (Module None)"]
      readUserPlugins_falls_back
        [of "project_env RegularFile (Module (Some \<lparr>cjs = None, esm = None\<rparr>))"]
      readUserPlugins_falls_back [of "project_env RegularFile ImportFails"]
      readUserPlugins_falls_back [of "project_env Unreadable ImportFails"]
    by (simp add: pluginFilePath_project_env project_env_at)
qed





section \<open>The calls of the bundler\<close>



text \<open>
  Claim C9. \<^verbatim>\<open>buildESM\<close> calls the bundler once, with bundling off, the format
  \<^verbatim>\<open>esm\<close>, the given source-map flag, targets, entry points and output directory,
  and the \<^verbatim>\<open>esm\<close> field of the loaded plugins. Its outcome is the bundler's, and
  the files are as the bundler left them: nothing is done to them afterwards.
\<close>

theorem buildESM_bundler_call:
  "\<exists>up opts. fst (readUserPlugins e) = Inr up \<and>
     opts = \<lparr>sourcemap = sm, target = tg, bundle_opt = False, entryPoints = srcFilesToCompile,
             format = FormatESM, outdir = outDir, plugins = esm up\<rparr> \<and>
     buildESM esbuild_build e srcFilesToCompile outDir sm tg w
       = (fst (esbuild_build opts (fs w)),
          w\<lparr>fs := snd (esbuild_build opts (fs w)),
            console := console w @ snd (readUserPlugins e),
            builds := builds w @ [opts]\<rparr>)"
proof -
  obtain up where up: "fst (readUserPlugins e) = Inr up"
    using readUserPlugins_resolves by blast
  show ?thesis
    using up buildESM_unfolded [OF up refl] by (intro exI conjI) (assumption, rule refl, assumption)
qed

theorem buildESM_bundler_call_witness:
  "buildESM (emit [(''index.js'', ''i'')])
      (project_env RegularFile
         (Module (Some \<lparr>cjs = None, esm = Some [UserPlugin ''p1'', UserPlugin ''p2'']\<rparr>)))
      [''src/index.ts''] ''/proj/dist'' True [''es2019''] project_files
   = (Inr (),
      \<lparr>fs = [(''/proj/src/index.ts'', ''export {}''), (''/proj/dist/index.js'', ''i'')],
       console = [],
       builds = [\<lparr>sourcemap = True, target = [''es2019''], bundle_opt = False,
                  entryPoints = [''src/index.ts''], format = FormatESM, outdir = ''/proj/dist'',
                  plugins = Some [UserPlugin ''p1'', UserPlugin ''p2'']\<rparr>],
       written = []\<rparr>)"
proof -
  let ?up = "\<lparr>cjs = None, esm = Some [UserPlugin ''p1'', UserPlugin ''p2'']\<rparr>"
  let ?e = "project_env RegularFile (Module (Some ?up))"
  have r: "readUserPlugins ?e = (Inr ?up, [])"
    by (simp add: readUserPlugins_def readUserPlugins_try_def stat_isFile_def dynamic_import_def
          pluginFilePath_project_env project_env_at)
  from buildESM_bundler_call [of ?e True "[''es2019'']" "[''src/index.ts'']" "''/proj/dist''"
      "emit [(''index.js'', ''i'')]" project_files]
  obtain opts where
    o: "opts = \<lparr>sourcemap = True, target = [''es2019''], bundle_opt = False,
                 entryPoints = [''src/index.ts''], format = FormatESM, outdir = ''/proj/dist'',
                 plugins = esm ?up\<rparr>"
    and b: "buildESM (emit [(''index.js'', ''i'')]) ?e [''src/index.ts''] ''/proj/dist'' True
              [''es2019''] project_files
       = (fst (emit [(''index.js'', ''i'')] opts (fs project_files)),
          project_files\<lparr>fs := snd (emit [(''index.js'', ''i'')] opts (fs project_files)),
            console := console project_files @ snd (readUserPlugins ?e),
            builds := builds project_files @ [opts]\<rparr>)"
    by (auto simp: r)
  show ?thesis
    unfolding b by (simp add: o r project_files_def emit_def)
qed

text \<open>
  Claim C4. When the bundler call inside \<^verbatim>\<open>buildCJS\<close> is rejected, \<^verbatim>\<open>buildCJS\<close>
  is rejected with the same error, the files are exactly as the bundler left them (no
  file was renamed, copied or removed by the wrapper), and no manifest stub was written.
\<close>

theorem buildCJS_bundler_failure:
  assumes "fst (readUserPlugins e) = Inr up"
    and "esbuild_build (cjs_options up cjsFilesToCompile outDir sm packageJsonFiles tg) (fs w)
           = (Inl err, left_behind)"
  shows "fst (buildCJS esbuild_build e packageName cjsFilesToCompile outDir sm packageJsonFiles tg w)
           = Inl err
    \<and> fs (snd (buildCJS esbuild_build e packageName cjsFilesToCompile outDir sm
                   packageJsonFiles tg w)) = left_behind
    \<and> written (snd (buildCJS esbuild_build e packageName cjsFilesToCompile outDir sm
                   packageJsonFiles tg w)) = written w"
  using buildCJS_rejected [where esbuild_build = esbuild_build and w = w, OF assms]
  by simp

theorem buildCJS_bundler_failure_witness:
  "fst (buildCJS failing_bundler (project_env Missing ImportFails) ''mylib'' [''src/index.ts'']
      ''/proj/dist'' False [''package.json''] [''es2019''] project_files)
     = Inl (BuildFailure ''Could not resolve ./missing'')
   \<and> fs (snd (buildCJS failing_bundler (project_env Missing ImportFails) ''mylib''
      [''src/index.ts''] ''/proj/dist'' False [''package.json''] [''es2019''] project_files))
     = [(''/proj/src/index.ts'', ''export {}''), (''/proj/dist/cjs/index.js'', ''partial'')]
   \<and> written (snd (buildCJS failing_bundler (project_env Missing ImportFails) ''mylib''
      [''src/index.ts''] ''/proj/dist'' False [''package.json''] [''es2019''] project_files))
     = []"
proof -
  let ?e = "project_env Missing ImportFails"
  let ?up = "\<lparr>cjs = Some [], esm = Some []\<rparr>"
  have r: "readUserPlugins ?e = (Inr ?up, [read_error_warning ''/proj/package-bundler.plugins.js''])"
    by (simp add: readUserPlugins_def readUserPlugins_try_def stat_isFile_def defaultOut_def
          pluginFilePath_project_env project_env_at)
  then have h1: "fst (readUserPlugins ?e) = Inr ?up"
    by simp
  have j: "path_join [''/proj/dist'', ''cjs''] = ''/proj/dist/cjs''"
    by (simp add: path_join_def path_normalize_def isAbsolute_def)
  have h2: "failing_bundler
      (cjs_options ?up [''src/index.ts''] ''/proj/dist'' False [''package.json''] [''es2019''])
      (fs project_files)
    = (Inl (BuildFailure ''Could not resolve ./missing''),
       [(''/proj/src/index.ts'', ''export {}''), (''/proj/dist/cjs/index.js'', ''partial'')])"
    by (simp add: failing_bundler_def cjs_options_def project_files_def j)
  from buildCJS_bundler_failure [where esbuild_build = failing_bundler and packageName = "''mylib''",
      OF h1 h2]
  show ?thesis
    by (simp add: project_files_def)
qed


section \<open>Post-processing of the CJS output\<close>

text \<open>
  Claim C1, as stated: the stub for the compiled file \<^verbatim>\<open>sub/feature.cjs.js\<close> of the
  package \<^verbatim>\<open>mylib\<close> is written to \<^verbatim>\<open><outDir>/.sub/package.json\<close>. In the run into
  \<^verbatim>\<open>/proj/dist\<close> the compiled file is there and one stub is written, to
  \<^verbatim>\<open>/proj/dist/sub/package.json\<close>; there is no file \<^verbatim>\<open>/proj/dist/.sub/package.json\<close>.
\<close>

theorem stub_not_in_dot_directory:
  "fst dist_run = Inr ()
   \<and> is_file (fs (snd dist_run)) ''/proj/dist/sub/feature.cjs.js''
   \<and> map fst (written (snd dist_run)) = [''/proj/dist/sub/package.json'']
   \<and> \<not> is_file (fs (snd dist_run)) ''/proj/dist/.sub/package.json''
   \<and> stub_path ''/proj/dist'' ''/proj/dist/sub/feature.cjs.js'' \<noteq> ''/proj/dist/.sub/package.json''"
  by code_simp

text \<open>
  Claim C1, amended. For a compiled file whose path is the output directory, as it was
  passed, followed by \<^verbatim>\<open>/sub/feature.cjs.js\<close>, and the package name \<^verbatim>\<open>mylib\<close>, the
  stub is \<^verbatim>\<open>{ main: feature.cjs.js, module: feature.js, name: mylib/sub, types: index.d.ts }\<close>
  and the path it is written to is \<^verbatim>\<open>path.join(outDir, 'sub', 'package.json')\<close>: the
  leading \<^verbatim>\<open>./\<close> of \<^verbatim>\<open>./sub\<close> is dropped by \<^verbatim>\<open>path.join\<close>. For an absolute,
  normalised output directory without a trailing slash that path is
  \<^verbatim>\<open><outDir>/sub/package.json\<close>, in the directory of the compiled file itself. When
  such a directory is plain, \<^verbatim>\<open>buildCJS\<close> has completed, the compiled file is among
  those the last loop runs over, and it is the last of them whose stub goes to that
  path (the compiled files of one directory share one stub path, and a later write
  replaces an earlier one), then the file \<^verbatim>\<open><outDir>/sub/package.json\<close> exists at the
  end and holds the text of that stub.
\<close>

theorem stub_for_sub_feature:
  "pJsonTemplate ''mylib'' outDir (outDir @ ''/sub/feature.cjs.js'')
     = \<lparr>main = ''feature.cjs.js'', module = ''feature.js'', name = ''mylib/sub'',
        types = ''index.d.ts''\<rparr>
   \<and> stub_path outDir (outDir @ ''/sub/feature.cjs.js'')
       = path_join [outDir, ''sub'', ''package.json'']
   \<and> (isAbsolute outDir \<and> path_normalize outDir = outDir \<and> last outDir \<noteq> CHR ''/''
        \<longrightarrow> stub_path outDir (outDir @ ''/sub/feature.cjs.js'') = outDir @ ''/sub/package.json'')
   \<and> (plain_path outDir
        \<and> isAbsolute outDir \<and> path_normalize outDir = outDir \<and> last outDir \<noteq> CHR ''/''
        \<and> buildCJS esbuild_build e ''mylib'' cjsFilesToCompile outDir sm packageJsonFiles tg w
              = (Inr (), w')
        \<and> outDir @ ''/sub/feature.cjs.js'' \<in> set (stub_sources (cwd e) outDir (fs w'))
        \<and> last (filter (\<lambda>p. resolve (cwd e) (stub_path outDir p) = outDir @ ''/sub/package.json'')
                   (stub_sources (cwd e) outDir (fs w'))) = outDir @ ''/sub/feature.cjs.js''
        \<longrightarrow> map_of (fs w') (outDir @ ''/sub/package.json'')
              = Some (JSON_stringify \<lparr>main = ''feature.cjs.js'', module = ''feature.js'',
                                      name = ''mylib/sub'', types = ''index.d.ts''\<rparr>))"
proof -
  let ?F = "outDir @ ''/sub/feature.cjs.js''"
  let ?T = "outDir @ ''/sub/package.json''"
  have t: "pJsonTemplate ''mylib'' outDir ?F
     = \<lparr>main = ''feature.cjs.js'', module = ''feature.js'', name = ''mylib/sub'',
        types = ''index.d.ts''\<rparr>"
    using pJsonTemplate_of_feature [of "''mylib''" outDir] by simp
  have below: "stub_path outDir ?F = ?T"
    if "isAbsolute outDir" "path_normalize outDir = outDir" "last outDir \<noteq> CHR ''/''"
    using that by (simp add: stub_path_of_feature path_join_below_normal)
  have "map_of (fs w') ?T
          = Some (JSON_stringify \<lparr>main = ''feature.cjs.js'', module = ''feature.js'',
                                  name = ''mylib/sub'', types = ''index.d.ts''\<rparr>)"
    if n: "isAbsolute outDir" "path_normalize outDir = outDir" "last outDir \<noteq> CHR ''/''"
      and run: "buildCJS esbuild_build e ''mylib'' cjsFilesToCompile outDir sm packageJsonFiles tg w
          = (Inr (), w')"
      and src: "?F \<in> set (stub_sources (cwd e) outDir (fs w'))"
      and lst: "last (filter (\<lambda>p. resolve (cwd e) (stub_path outDir p) = ?T)
                   (stub_sources (cwd e) outDir (fs w'))) = ?F"
  proof -
    have target: "resolve (cwd e) (stub_path outDir ?F) = ?T"
      using below [OF n] resolve_below_normal [OF n] by simp
    from lst have lst': "last (filter (\<lambda>p. resolve (cwd e) (stub_path outDir p)
                              = resolve (cwd e) (stub_path outDir ?F))
                   (stub_sources (cwd e) outDir (fs w'))) = ?F"
      by (simp only: target)
    from buildCJS_stub_file [OF run src lst'] show ?thesis
      by (simp only: target t)
  qed
  with t below show ?thesis
    by (simp add: stub_path_of_feature)
qed

theorem stub_for_sub_feature_witness:
  \<open>plain_path ''/proj/dist''
   \<and> isAbsolute ''/proj/dist'' \<and> path_normalize ''/proj/dist'' = ''/proj/dist''
   \<and> last ''/proj/dist'' \<noteq> CHR ''/''
   \<and> buildCJS (emit [(''index.js'', ''i''), (''sub/feature.js'', ''f'')])
         (project_env Missing ImportFails) ''mylib'' [''src/index.ts''] ''/proj/dist'' False
         [''package.json''] [''es2019''] project_files = (Inr (), snd dist_run)
   \<and> stub_sources ''/proj'' ''/proj/dist'' (fs (snd dist_run)) = [''/proj/dist/sub/feature.cjs.js'']
   \<and> stub_path ''/proj/dist'' ''/proj/dist/sub/feature.cjs.js'' = ''/proj/dist/sub/package.json''
   \<and> pJsonTemplate ''mylib'' ''/proj/dist'' ''/proj/dist/sub/feature.cjs.js''
       = \<lparr>main = ''feature.cjs.js'', module = ''feature.js'', name = ''mylib/sub'',
          types = ''index.d.ts''\<rparr>
   \<and> map_of (fs (snd dist_run)) ''/proj/dist/sub/package.json''
       = Some (''{'' @ [CHR 0x0A]
          @ ''  "main": "feature.cjs.js",'' @ [CHR 0x0A]
          @ ''  "module": "feature.js",'' @ [CHR 0x0A]
          @ ''  "name": "mylib/sub",'' @ [CHR 0x0A]
          @ ''  "types": "index.d.ts"'' @ [CHR 0x0A]
          @ ''}'')\<close>
proof -
  have h: "isAbsolute ''/proj/dist'' \<and> path_normalize ''/proj/dist'' = ''/proj/dist''
      \<and> last ''/proj/dist'' \<noteq> CHR ''/''"
    by (simp add: isAbsolute_def path_normalize_def)
  have pl: "plain_path ''/proj/dist''"
    by (rule plain_path_dist)
  have "fst dist_run = Inr ()"
    by code_simp
  then have run: "buildCJS (emit [(''index.js'', ''i''), (''sub/feature.js'', ''f'')])
        (project_env Missing ImportFails) ''mylib'' [''src/index.ts''] ''/proj/dist'' False
        [''package.json''] [''es2019''] project_files = (Inr (), snd dist_run)"
    by (simp add: dist_run_def run_cjs_def prod_eq_iff)
  have c: "cwd (project_env Missing ImportFails) = ''/proj''"
    by (simp add: project_env_def)
  have srcs: "stub_sources ''/proj'' ''/proj/dist'' (fs (snd dist_run))
      = [''/proj/dist/sub/feature.cjs.js'']"
    by code_simp
  have tgt: "resolve ''/proj'' (stub_path ''/proj/dist'' ''/proj/dist/sub/feature.cjs.js'')
      = ''/proj/dist/sub/package.json''"
    by code_simp
  have src: "''/proj/dist/sub/feature.cjs.js''
      \<in> set (stub_sources ''/proj'' ''/proj/dist'' (fs (snd dist_run)))"
    by (simp add: srcs)
  have lst: "last (filter (\<lambda>p. resolve ''/proj'' (stub_path ''/proj/dist'' p)
                              = ''/proj/dist/sub/package.json'')
                (stub_sources ''/proj'' ''/proj/dist'' (fs (snd dist_run))))
      = ''/proj/dist/sub/feature.cjs.js''"
    by (simp add: srcs tgt)
  have j: \<open>JSON_stringify \<lparr>main = ''feature.cjs.js'', module = ''feature.js'',
        name = ''mylib/sub'', types = ''index.d.ts''\<rparr>
      = ''{'' @ [CHR 0x0A]
        @ ''  "main": "feature.cjs.js",'' @ [CHR 0x0A]
        @ ''  "module": "feature.js",'' @ [CHR 0x0A]
        @ ''  "name": "mylib/sub",'' @ [CHR 0x0A]
        @ ''  "types": "index.d.ts"'' @ [CHR 0x0A]
        @ ''}''\<close>
    by code_simp
  note at_dist = stub_for_sub_feature [where outDir = "''/proj/dist''"
      and esbuild_build = "emit [(''index.js'', ''i''), (''sub/feature.js'', ''f'')]"
      and e = "project_env Missing ImportFails" and cjsFilesToCompile = "[''src/index.ts'']"
      and sm = False and packageJsonFiles = "[''package.json'']" and tg = "[''es2019'']"
      and w = project_files and w' = "snd dist_run", unfolded c append.simps]
  from at_dist
  have t1: "pJsonTemplate ''mylib'' ''/proj/dist'' ''/proj/dist/sub/feature.cjs.js''
       = \<lparr>main = ''feature.cjs.js'', module = ''feature.js'', name = ''mylib/sub'',
          types = ''index.d.ts''\<rparr>"
    by (rule conjunct1)
  from at_dist h
  have t2: "stub_path ''/proj/dist'' ''/proj/dist/sub/feature.cjs.js''
       = ''/proj/dist/sub/package.json''"
    by blast
  from at_dist pl h run src lst
  have t3: "map_of (fs (snd dist_run)) ''/proj/dist/sub/package.json''
       = Some (JSON_stringify \<lparr>main = ''feature.cjs.js'', module = ''feature.js'',
            name = ''mylib/sub'', types = ''index.d.ts''\<rparr>)"
    by blast
  from t1 t2 t3 [unfolded j] pl h run srcs show ?thesis
    by (intro conjI) (simp_all only: simp_thms)
qed

text \<open>
  Claim C2 says that, whatever the output directory, the top-level \<^verbatim>\<open>index.cjs.js\<close>
  of the output root gets no stub and every other \<^verbatim>\<open>*.cjs.js\<close> file gets one. Line
  86 is where the entry file is left out; it tests whether the path contains the text
  \<^verbatim>\<open>dist/index.cjs.js\<close> and does not look at \<^verbatim>\<open>outDir\<close>, so it leaves out the
  entry file when the path of the output directory ends in \<^verbatim>\<open>dist\<close>
  (\<open>top_index_excluded\<close>) and not otherwise. Both halves of the claim fail in the runs
  below. In the run into \<^verbatim>\<open>/proj/build\<close> the top-level \<^verbatim>\<open>index.cjs.js\<close> gets a
  stub: the file \<^verbatim>\<open>/proj/build/package.json\<close> is written, with the package name
  \<^verbatim>\<open>mylib/\<close>. In the run into \<^verbatim>\<open>/proj/dist\<close> with the compiled file
  \<^verbatim>\<open>a/dist/index.cjs.js\<close>, which is not the top-level one, that file gets no stub:
  \<^verbatim>\<open>buildCJS\<close> completes and no \<^verbatim>\<open>package.json\<close> exists.
\<close>

theorem top_level_index_gets_stub:
  "build_run
     = (Inr (),
        \<lparr>fs = [(''/proj/src/index.ts'', ''export {}''),
               (''/proj/build/index.cjs.js'', ''i''),
               (''/proj/build/sub/feature.cjs.js'', ''f''),
               (''/proj/build/package.json'',
                JSON_stringify \<lparr>main = ''index.cjs.js'', module = ''index.js'',
                                 name = ''mylib/'', types = ''index.d.ts''\<rparr>),
               (''/proj/build/sub/package.json'',
                JSON_stringify \<lparr>main = ''feature.cjs.js'', module = ''feature.js'',
                                 name = ''mylib/sub'', types = ''index.d.ts''\<rparr>)],
         console = [read_error_warning ''/proj/package-bundler.plugins.js''],
         builds = [\<lparr>sourcemap = False, target = [''es2019''], bundle_opt = True,
                    entryPoints = [''src/index.ts''], format = FormatCJS,
                    outdir = ''/proj/build/cjs'',
                    plugins = Some [NodeExternals [''package.json'']]\<rparr>],
         written = [(''/proj/build/package.json'',
                     JSON_stringify \<lparr>main = ''index.cjs.js'', module = ''index.js'',
                                      name = ''mylib/'', types = ''index.d.ts''\<rparr>),
                    (''/proj/build/sub/package.json'',
                     JSON_stringify \<lparr>main = ''feature.cjs.js'', module = ''feature.js'',
                                      name = ''mylib/sub'', types = ''index.d.ts''\<rparr>)]\<rparr>)
   \<and> fst nested_dist_run = Inr ()
   \<and> fs (snd nested_dist_run)
       = [(''/proj/src/index.ts'', ''export {}''), (''/proj/dist/index.cjs.js'', ''i''),
          (''/proj/dist/a/dist/index.cjs.js'', ''n'')]
   \<and> written (snd nested_dist_run) = []"
  by code_simp

text \<open>
  Claim C5 says that every \<^verbatim>\<open>.js\<close> file the bundler left below the temporary
  \<^verbatim>\<open>cjs\<close> directory ends up, renamed to \<^verbatim>\<open>.cjs.js\<close>, at the same relative position
  below the output directory, and that no \<^verbatim>\<open>.js\<close> file stays in the temporary place.
  The second half holds (\<open>temporary_directory_emptied\<close>), and so does the first for a
  file whose new place is outside the temporary directory (\<open>compiled_file_moved_up\<close>).
  The run below is one where the first half fails: the bundler leaves
  \<^verbatim>\<open>/proj/dist/cjs/cjs/a.js\<close> (relative position \<^verbatim>\<open>cjs/a.js\<close>); the copy puts the
  renamed file at \<^verbatim>\<open>/proj/dist/cjs/a.cjs.js\<close>, which is inside the temporary
  directory, and the removal of that directory deletes it. \<^verbatim>\<open>buildCJS\<close> completes,
  and \<^verbatim>\<open>a.cjs.js\<close> is nowhere in the output.
\<close>

theorem nested_cjs_output_lost:
  "snd (emit [(''index.js'', ''i''), (''cjs/a.js'', ''a'')]
          (cjs_options defaultOut [''src/index.ts''] ''/proj/dist'' False [''package.json'']
             [''es2019''])
          (fs project_files))
     = [(''/proj/src/index.ts'', ''export {}''), (''/proj/dist/cjs/index.js'', ''i''),
        (''/proj/dist/cjs/cjs/a.js'', ''a'')]
   \<and> fst nested_cjs_run = Inr ()
   \<and> fs (snd nested_cjs_run)
       = [(''/proj/src/index.ts'', ''export {}''), (''/proj/dist/index.cjs.js'', ''i'')]
   \<and> \<not> is_file (fs (snd nested_cjs_run)) ''/proj/dist/cjs/a.cjs.js''"
  by code_simp

end
